theory Spec2Isabelle
  imports Main
begin

section \<open>Python strings\<close>

text \<open>
  A Python \<open>str\<close> is modelled as a HOL \<open>string\<close>, one \<open>char\<close> per byte of its UTF-8
  encoding. Every literal the server tests (\<open>.wav\<close>, \<open>/favicon.ico\<close>, \<open>Broken pipe\<close>, ...)
  is ASCII, and no byte of a multi-byte UTF-8 sequence is an ASCII byte, so suffix and
  substring tests against these literals agree on bytes and on code points.
\<close>

definition endswith :: "string \<Rightarrow> string \<Rightarrow> bool" where
  \<comment> \<open>\<open>s.endswith(suf)\<close>\<close>
  "endswith s suf \<longleftrightarrow> length suf \<le> length s \<and> drop (length s - length suf) s = suf"

definition endswith_any :: "string \<Rightarrow> string list \<Rightarrow> bool" where
  \<comment> \<open>\<open>s.endswith((suf1, suf2, ...))\<close> with a tuple of suffixes\<close>
  "endswith_any s sufs \<longleftrightarrow> list_ex (endswith s) sufs"

definition startswith :: "string \<Rightarrow> string \<Rightarrow> bool" where
  \<comment> \<open>\<open>s.startswith(pre)\<close>\<close>
  "startswith s pre \<longleftrightarrow> take (length pre) s = pre"

primrec py_in :: "string \<Rightarrow> string \<Rightarrow> bool" where
  \<comment> \<open>\<open>sub in s\<close> on strings: \<open>sub\<close> occurs in \<open>s\<close> as a contiguous substring\<close>
  "py_in sub [] \<longleftrightarrow> sub = []"
| "py_in sub (c # cs) \<longleftrightarrow> startswith (c # cs) sub \<or> py_in sub cs"

definition lower_char :: "char \<Rightarrow> char" where
  \<comment> \<open>\<open>str.lower()\<close> on one ASCII character; other bytes are left alone\<close>
  "lower_char c =
     (case map_of (zip ''ABCDEFGHIJKLMNOPQRSTUVWXYZ'' ''abcdefghijklmnopqrstuvwxyz'') c of
        Some d \<Rightarrow> d
      | None \<Rightarrow> c)"

definition lower :: "string \<Rightarrow> string" where
  \<comment> \<open>\<open>s.lower()\<close>\<close>
  "lower s = map lower_char s"

section \<open>Python values and formatting\<close>

datatype exn =
    OSError | BrokenPipeError | ConnectionResetError | TimeoutError
  | TypeError | ValueError | IndexError | UnicodeEncodeError

definition is_OSError :: "exn \<Rightarrow> bool" where
  \<comment> \<open>what \<open>except OSError\<close> catches: the class and its subclasses\<close>
  "is_OSError e \<longleftrightarrow> e \<in> {OSError, BrokenPipeError, ConnectionResetError, TimeoutError}"

datatype pyval = PyStr string | PyInt int

function str_nat :: "nat \<Rightarrow> string" where
  "str_nat n =
     (if n < 10 then [''0123456789'' ! n]
      else str_nat (n div 10) @ [''0123456789'' ! (n mod 10)])"
  by pat_completeness auto
termination
  by (relation "measure id") auto

declare str_nat.simps [simp del]

fun str :: "pyval \<Rightarrow> string" where
  \<comment> \<open>the builtin \<open>str(x)\<close>\<close>
  "str (PyStr s) = s"
| "str (PyInt i) = (if i < 0 then CHR ''-'' # str_nat (nat (- i)) else str_nat (nat i))"

text \<open>
  \<open>format % args\<close> with a tuple of arguments, for the conversions the callers of
  \<open>log_message\<close> use: \<open>%s\<close>, \<open>%d\<close> and \<open>%%\<close>. Too few or too many arguments and a
  string given to \<open>%d\<close> raise \<open>TypeError\<close>; an incomplete or unknown conversion raises
  \<open>ValueError\<close>. Flags, widths and the other conversion types are outside the model.
\<close>

fun py_format :: "string \<Rightarrow> pyval list \<Rightarrow> exn + string" where
  "py_format [] [] = Inr []"
| "py_format [] (a # as) = Inl TypeError"
| "py_format (c # r) as =
     (if c \<noteq> CHR ''%'' then map_sum id ((#) c) (py_format r as)
      else (case r of
              [] \<Rightarrow> Inl ValueError
            | d # r' \<Rightarrow>
                if d = CHR ''%'' then map_sum id ((#) CHR ''%'') (py_format r' as)
                else if d = CHR ''s'' then
                  (case as of
                     [] \<Rightarrow> Inl TypeError
                   | a # as' \<Rightarrow> map_sum id ((@) (str a)) (py_format r' as'))
                else if d = CHR ''d'' then
                  (case as of
                     [] \<Rightarrow> Inl TypeError
                   | PyStr _ # as' \<Rightarrow> Inl TypeError
                   | PyInt i # as' \<Rightarrow> map_sum id ((@) (str (PyInt i))) (py_format r' as'))
                else Inl ValueError))"

section \<open>The environment of the handler\<close>

text \<open>
  \<open>AudioMothHTTPRequestHandler\<close> subclasses \<open>http.server.SimpleHTTPRequestHandler\<close> of the
  Python standard library. The methods it inherits are modelled below after the
  library's source (CPython 3.11, \<open>Lib/http/server.py\<close>); the computations they delegate
  to other library modules are the fields of \<open>lib\<close>, and the operating system calls are
  the fields of \<open>fsys\<close>. Where such a call can raise, its result is a sum with the
  exception on the left.
\<close>

record lib =
  super_guess_type :: "string \<Rightarrow> string"
    \<comment> \<open>\<open>SimpleHTTPRequestHandler.guess_type\<close>: the \<open>mimetypes\<close> registry lookup\<close>
  to_local :: "string \<Rightarrow> string"
    \<comment> \<open>\<open>translate_path\<close> after the query and fragment are cut off: unquote, normpath,
        join with the served directory, restore the trailing slash\<close>
  urlsplit_path :: "string \<Rightarrow> exn + string"
    \<comment> \<open>\<open>urllib.parse.urlsplit(p).path\<close>, or the exception \<open>urlsplit\<close> raises\<close>
  redirect_url :: "string \<Rightarrow> string"
    \<comment> \<open>the URL of \<open>p\<close> with \<open>/\<close> appended to its path component\<close>
  version_string :: string
  date_time_string :: string
  protocol_version :: string
  error_body :: "nat \<Rightarrow> string \<Rightarrow> string"
    \<comment> \<open>the page \<open>error_message_format\<close> renders for a code and a message\<close>
  error_content_type :: string
  fs_encoding :: string
  unquote :: "string \<Rightarrow> string"
    \<comment> \<open>\<open>urllib.parse.unquote\<close>\<close>

record fileobj =
  content :: string
  fstat_error :: "exn option"
    \<comment> \<open>the exception \<open>os.fstat\<close> raises on the open file, if any\<close>
  st_size :: nat
  last_modified :: string

record fsys =
  isdir :: "string \<Rightarrow> bool"
  isfile :: "string \<Rightarrow> bool"
  open_rb :: "string \<Rightarrow> exn + fileobj"
    \<comment> \<open>\<open>open(path, 'rb')\<close>: the file object, or the exception raised\<close>
  not_modified_since :: "string \<Rightarrow> fileobj \<Rightarrow> bool"
    \<comment> \<open>the \<open>If-Modified-Since\<close> value parses to a UTC time not before the file's
        modification time\<close>
  listdir :: "string \<Rightarrow> exn + string list"
    \<comment> \<open>\<open>os.listdir(path)\<close>, or the exception raised\<close>
  listing_page :: "string \<Rightarrow> string list \<Rightarrow> string \<Rightarrow> exn + string"
    \<comment> \<open>the encoded page \<open>list_directory\<close> builds from a local directory, its entries and
        the request path, or the exception raised on the way (the encoding of a
        path with a lone surrogate raises \<open>UnicodeEncodeError\<close>)\<close>

section \<open>The state of the handler\<close>

datatype hline = StatusLine string nat string | HeaderLine string string

datatype chunk = Head "hline list" | Data string

text \<open>
  One handler object serves one connection. \<open>wfile\<close> holds what has been written to the
  socket, one entry per \<open>write\<close>: a flushed header block or a piece of a body. \<open>peer\<close>
  says how the next writes end: \<open>None\<close> for a write that succeeds, \<open>Some e\<close> for one that
  raises \<open>e\<close> because the peer has gone; when the list is used up every write succeeds.
  \<open>stdout\<close> holds the lines printed; \<open>print\<close> and reading an open file are taken to
  succeed. \<open>request_version\<close> is \<open>HTTP/0.9\<close> for a request line without a version, and
  then the library buffers and writes no status line and no header.
\<close>

record handler =
  command :: string
  path :: string
  requestline :: string
  request_version :: string
  headers :: "(string \<times> string) list"
  headers_buffer :: "hline list"
  close_connection :: bool
  wfile :: "chunk list"
  peer :: "exn option list"
  stdout :: "string list"

type_synonym proc = "handler \<Rightarrow> exn option \<times> handler"

definition seq :: "proc \<Rightarrow> proc \<Rightarrow> proc" where
  \<comment> \<open>one statement after another: an exception of the first skips the second\<close>
  "seq f g h = (case f h of (None, h') \<Rightarrow> g h' | (Some e, h') \<Rightarrow> (Some e, h'))"

definition pure :: "(handler \<Rightarrow> handler) \<Rightarrow> proc" where
  \<comment> \<open>a statement that cannot raise\<close>
  "pure f h = (None, f h)"

definition wfile_write :: "chunk \<Rightarrow> proc" where
  \<comment> \<open>\<open>self.wfile.write(data)\<close> on the unbuffered socket writer\<close>
  "wfile_write d h =
     (case peer h of
        [] \<Rightarrow> (None, h\<lparr>wfile := wfile h @ [d]\<rparr>)
      | None # r \<Rightarrow> (None, h\<lparr>wfile := wfile h @ [d], peer := r\<rparr>)
      | Some e # r \<Rightarrow> (Some e, h\<lparr>peer := r\<rparr>))"

section \<open>Logging\<close>

definition log_message :: "lib \<Rightarrow> string \<Rightarrow> pyval list \<Rightarrow> proc" where
  \<comment> \<open>\<open>AudioMothHTTPRequestHandler.log_message\<close>\<close>
  "log_message L format args h =
     (if args \<noteq> [] \<and> length args > 0 then
        (let request_path = str (hd args) in
         if list_ex (\<lambda>ext. py_in ext request_path) [''.wav'', ''.WAV'', ''.html'', ''.mp3'', ''.MP3'']
         then (case py_format format args of
                 Inr message \<Rightarrow>
                   (None, h\<lparr>stdout := stdout h @ [''[Servidor] '' @ unquote L message]\<rparr>)
               | Inl e \<Rightarrow> if e = TypeError \<or> e = IndexError then (None, h) else (Some e, h))
         else (None, h))
      else (None, h))"

definition super_log_error :: "lib \<Rightarrow> string \<Rightarrow> pyval list \<Rightarrow> proc" where
  \<comment> \<open>\<open>BaseHTTPRequestHandler.log_error\<close>\<close>
  "super_log_error L format args = log_message L format args"

definition log_error :: "lib \<Rightarrow> string \<Rightarrow> pyval list \<Rightarrow> proc" where
  \<comment> \<open>\<open>AudioMothHTTPRequestHandler.log_error\<close>\<close>
  "log_error L format args h =
     (if args \<noteq> [] \<and> length args > 0 \<and>
         (let error_msg = str (hd args) in
          py_in ''Broken pipe'' error_msg \<or> py_in ''Connection reset'' error_msg)
      then (None, h)
      else super_log_error L format args h)"

definition log_request :: "lib \<Rightarrow> nat \<Rightarrow> proc" where
  \<comment> \<open>\<open>BaseHTTPRequestHandler.log_request(code)\<close>, the size left at its default\<close>
  "log_request L code h =
     log_message L ''\"%s\" %s %s'' [PyStr (requestline h), PyStr (str_nat code), PyStr ''-''] h"

section \<open>Response headers\<close>

definition responses :: "nat \<Rightarrow> string option" where
  \<comment> \<open>the phrases of \<open>HTTPStatus\<close> for the codes the handler sends\<close>
  "responses = map_of [(200, ''OK''), (204, ''No Content''), (301, ''Moved Permanently''),
                       (304, ''Not Modified''), (404, ''Not Found'')]"

definition send_response_only :: "lib \<Rightarrow> nat \<Rightarrow> string option \<Rightarrow> handler \<Rightarrow> handler" where
  "send_response_only L code message h =
     (if request_version h \<noteq> ''HTTP/0.9'' then
        (let message = (case message of
                          None \<Rightarrow> (case responses code of Some m \<Rightarrow> m | None \<Rightarrow> [])
                        | Some m \<Rightarrow> m)
         in h\<lparr>headers_buffer := headers_buffer h @ [StatusLine (protocol_version L) code message]\<rparr>)
      else h)"

definition send_header :: "string \<Rightarrow> string \<Rightarrow> handler \<Rightarrow> handler" where
  "send_header keyword val h =
     (let h = (if request_version h \<noteq> ''HTTP/0.9''
               then h\<lparr>headers_buffer := headers_buffer h @ [HeaderLine keyword val]\<rparr>
               else h) in
      if lower keyword = ''connection'' then
        (if lower val = ''close'' then h\<lparr>close_connection := True\<rparr>
         else if lower val = ''keep-alive'' then h\<lparr>close_connection := False\<rparr>
         else h)
      else h)"

definition send_response :: "lib \<Rightarrow> nat \<Rightarrow> string option \<Rightarrow> proc" where
  "send_response L code message =
     seq (log_request L code)
         (pure (\<lambda>h. send_header ''Date'' (date_time_string L)
                      (send_header ''Server'' (version_string L)
                        (send_response_only L code message h))))"

definition flush_headers :: proc where
  "flush_headers h =
     (case wfile_write (Head (headers_buffer h)) h of
        (None, h') \<Rightarrow> (None, h'\<lparr>headers_buffer := []\<rparr>)
      | (Some e, h') \<Rightarrow> (Some e, h'))"

definition super_end_headers :: proc where
  \<comment> \<open>\<open>BaseHTTPRequestHandler.end_headers\<close>; the blank line that ends the block is implicit
      in \<open>Head\<close>\<close>
  "super_end_headers h =
     (if request_version h \<noteq> ''HTTP/0.9'' then flush_headers h else (None, h))"

definition end_headers :: proc where
  \<comment> \<open>\<open>AudioMothHTTPRequestHandler.end_headers\<close>\<close>
  "end_headers h =
     (let h = send_header ''Access-Control-Allow-Origin'' ''*'' h;
          h = send_header ''Access-Control-Allow-Methods'' ''GET, OPTIONS'' h;
          h = send_header ''Access-Control-Allow-Headers'' ''*'' h;
          h = (if endswith_any (path h) [''.wav'', ''.WAV'', ''.mp3'', ''.MP3'']
               then send_header ''Accept-Ranges'' ''bytes''
                      (send_header ''Cache-Control'' ''max-age=3600'' h)
               else h)
      in super_end_headers h)"

definition do_OPTIONS :: "lib \<Rightarrow> proc" where
  "do_OPTIONS L = seq (send_response L 200 None) end_headers"

definition send_error :: "lib \<Rightarrow> nat \<Rightarrow> string \<Rightarrow> proc" where
  \<comment> \<open>\<open>BaseHTTPRequestHandler.send_error(code, message)\<close>\<close>
  "send_error L code message =
     (let body = (if code \<ge> 200 \<and> code \<notin> {204, 205, 304}
                  then Some (error_body L code message) else None)
      in seq (log_error L ''code %d, message %s'' [PyInt (int code), PyStr message])
        (seq (send_response L code (Some message))
        (seq (pure (send_header ''Connection'' ''close''))
        (seq (pure (\<lambda>h. case body of
                 None \<Rightarrow> h
               | Some b \<Rightarrow> send_header ''Content-Length'' (str_nat (length b))
                             (send_header ''Content-Type'' (error_content_type L) h)))
        (seq end_headers
             (\<lambda>h. case body of
                 None \<Rightarrow> (None, h)
               | Some b \<Rightarrow> if command h \<noteq> ''HEAD'' \<and> b \<noteq> [] then wfile_write (Data b) h
                           else (None, h)))))))"

section \<open>MIME types\<close>

definition guess_type :: "lib \<Rightarrow> string \<Rightarrow> string" where
  \<comment> \<open>\<open>AudioMothHTTPRequestHandler.guess_type\<close>\<close>
  "guess_type L p =
     (let mimetype = super_guess_type L p in
      if endswith (lower p) ''.wav'' then ''audio/wav'' else mimetype)"

section \<open>Serving files\<close>

definition translate_path :: "lib \<Rightarrow> string \<Rightarrow> string" where
  \<comment> \<open>\<open>SimpleHTTPRequestHandler.translate_path\<close>: \<open>split('?', 1)[0]\<close>, \<open>split('#', 1)[0]\<close>,
      then the rest\<close>
  "translate_path L p =
     to_local L (takeWhile (\<lambda>c. c \<noteq> CHR ''#'') (takeWhile (\<lambda>c. c \<noteq> CHR ''?'') p))"

definition join :: "string \<Rightarrow> string \<Rightarrow> string" where
  \<comment> \<open>\<open>os.path.join(a, b)\<close> on POSIX\<close>
  "join a b =
     (if startswith b ''/'' then b
      else if a = [] \<or> endswith a ''/'' then a @ b
      else a @ ''/'' @ b)"

definition get_header :: "string \<Rightarrow> (string \<times> string) list \<Rightarrow> string option" where
  \<comment> \<open>\<open>self.headers[name]\<close>: field names compare without regard to case\<close>
  "get_header name hs = map_of (map (\<lambda>(k, v). (lower k, v)) hs) (lower name)"

definition returning :: "'a \<Rightarrow> proc \<Rightarrow> handler \<Rightarrow> (exn + 'a) \<times> handler" where
  \<comment> \<open>run the statements, then \<open>return x\<close>\<close>
  "returning x f h = (case f h of (None, h') \<Rightarrow> (Inr x, h') | (Some e, h') \<Rightarrow> (Inl e, h'))"

definition list_directory :: "lib \<Rightarrow> fsys \<Rightarrow> string \<Rightarrow> handler \<Rightarrow> (exn + string option) \<times> handler" where
  \<comment> \<open>\<open>SimpleHTTPRequestHandler.list_directory\<close>\<close>
  "list_directory L F p h =
     (case listdir F p of
        Inl e \<Rightarrow>
          if is_OSError e
          then returning None (send_error L 404 ''No permission to list directory'') h
          else (Inl e, h)
      | Inr names \<Rightarrow>
          (case listing_page F p names (path h) of
             Inl e \<Rightarrow> (Inl e, h)
           | Inr encoded \<Rightarrow>
               returning (Some encoded)
                 (seq (send_response L 200 None)
                 (seq (pure (\<lambda>h. send_header ''Content-Length'' (str_nat (length encoded))
                               (send_header ''Content-type'' (''text/html; charset='' @ fs_encoding L) h)))
                      end_headers)) h))"

definition send_head_file :: "lib \<Rightarrow> fsys \<Rightarrow> string \<Rightarrow> handler \<Rightarrow> (exn + string option) \<times> handler" where
  \<comment> \<open>\<open>send_head\<close> from \<open>ctype = self.guess_type(path)\<close> on\<close>
  "send_head_file L F p h =
     (let ctype = guess_type L p in
      if endswith p ''/'' then returning None (send_error L 404 ''File not found'') h
      else (case open_rb F p of
              Inl e \<Rightarrow>
                if is_OSError e then returning None (send_error L 404 ''File not found'') h
                else (Inl e, h)
            | Inr f \<Rightarrow>
                (case fstat_error f of
                   Some e \<Rightarrow> (Inl e, h)
                 | None \<Rightarrow>
                     if get_header ''If-Modified-Since'' (headers h) \<noteq> None
                        \<and> get_header ''If-None-Match'' (headers h) = None
                        \<and> not_modified_since F (the (get_header ''If-Modified-Since'' (headers h))) f
                     then returning None (seq (send_response L 304 None) end_headers) h
                     else returning (Some (content f))
                            (seq (send_response L 200 None)
                            (seq (pure (\<lambda>h. send_header ''Last-Modified'' (last_modified f)
                                          (send_header ''Content-Length'' (str_nat (st_size f))
                                            (send_header ''Content-type'' ctype h))))
                                 end_headers)) h)))"

definition send_head :: "lib \<Rightarrow> fsys \<Rightarrow> handler \<Rightarrow> (exn + string option) \<times> handler" where
  \<comment> \<open>\<open>SimpleHTTPRequestHandler.send_head\<close>; the value returned is the content of the file
      object, or \<open>None\<close>\<close>
  "send_head L F h =
     (let p = translate_path L (path h) in
      if isdir F p then
        (case urlsplit_path L (path h) of
           Inl e \<Rightarrow> (Inl e, h)
         | Inr parts_path \<Rightarrow>
             if \<not> endswith parts_path ''/'' then
               returning None
                 (seq (send_response L 301 None)
                 (seq (pure (\<lambda>h. send_header ''Content-Length'' ''0''
                               (send_header ''Location'' (redirect_url L (path h)) h)))
                      end_headers)) h
             else (case find (\<lambda>index. isfile F (join p index)) [''index.html'', ''index.htm''] of
                     Some index \<Rightarrow> send_head_file L F (join p index) h
                   | None \<Rightarrow> list_directory L F p h))
      else send_head_file L F p h)"

definition COPY_BUFSIZE :: nat where
  "COPY_BUFSIZE = 64 * 1024"

function copyfile :: "string \<Rightarrow> proc" where
  \<comment> \<open>\<open>shutil.copyfileobj(source, self.wfile)\<close>: read a buffer, write it, until the read
      is empty\<close>
  "copyfile src h =
     (if take COPY_BUFSIZE src = [] then (None, h)
      else (case wfile_write (Data (take COPY_BUFSIZE src)) h of
              (None, h') \<Rightarrow> copyfile (drop COPY_BUFSIZE src) h'
            | (Some e, h') \<Rightarrow> (Some e, h')))"
  by pat_completeness auto
termination
  by (relation "measure (\<lambda>(src, h). length src)") (auto simp: COPY_BUFSIZE_def)

declare copyfile.simps [simp del]

definition super_do_GET :: "lib \<Rightarrow> fsys \<Rightarrow> proc" where
  \<comment> \<open>\<open>SimpleHTTPRequestHandler.do_GET\<close>\<close>
  "super_do_GET L F h =
     (case send_head L F h of
        (Inl e, h') \<Rightarrow> (Some e, h')
      | (Inr None, h') \<Rightarrow> (None, h')
      | (Inr (Some f), h') \<Rightarrow> copyfile f h')"

definition do_GET :: "lib \<Rightarrow> fsys \<Rightarrow> proc" where
  \<comment> \<open>\<open>AudioMothHTTPRequestHandler.do_GET\<close>\<close>
  "do_GET L F h =
     (if path h = ''/favicon.ico'' then seq (send_response L 204 None) end_headers h
      else (case super_do_GET L F h of
              (None, h') \<Rightarrow> (None, h')
            | (Some e, h') \<Rightarrow>
                if e = BrokenPipeError \<or> e = ConnectionResetError then (None, h')
                else (Some e, h')))"

section \<open>Reading the wire\<close>

definition wire_heads :: "chunk list \<Rightarrow> hline list list" where
  \<comment> \<open>the header blocks on the wire, in order\<close>
  "wire_heads w = concat (map (\<lambda>c. case c of Head hs \<Rightarrow> [hs] | Data _ \<Rightarrow> []) w)"

definition wire_body :: "chunk list \<Rightarrow> string" where
  \<comment> \<open>the body bytes on the wire, in order\<close>
  "wire_body w = concat (map (\<lambda>c. case c of Head _ \<Rightarrow> [] | Data d \<Rightarrow> d) w)"

definition status_codes :: "hline list \<Rightarrow> nat list" where
  "status_codes hs = concat (map (\<lambda>l. case l of StatusLine _ c _ \<Rightarrow> [c] | HeaderLine _ _ \<Rightarrow> []) hs)"

definition header_values :: "string \<Rightarrow> hline list \<Rightarrow> string list" where
  "header_values k hs =
     concat (map (\<lambda>l. case l of StatusLine _ _ _ \<Rightarrow> [] | HeaderLine k' v \<Rightarrow> if k' = k then [v] else []) hs)"

definition cors :: "hline list \<Rightarrow> bool" where
  "cors hs \<longleftrightarrow>
     HeaderLine ''Access-Control-Allow-Origin'' ''*'' \<in> set hs
     \<and> HeaderLine ''Access-Control-Allow-Methods'' ''GET, OPTIONS'' \<in> set hs
     \<and> HeaderLine ''Access-Control-Allow-Headers'' ''*'' \<in> set hs"

definition audio_headers :: "hline list \<Rightarrow> bool" where
  "audio_headers hs \<longleftrightarrow>
     HeaderLine ''Cache-Control'' ''max-age=3600'' \<in> set hs
     \<and> HeaderLine ''Accept-Ranges'' ''bytes'' \<in> set hs"

section \<open>An example environment\<close>

definition hex_val :: "char \<Rightarrow> nat option" where
  "hex_val c =
     map_of (zip ''0123456789abcdefABCDEF''
                 [0, 1, 2, 3, 4, 5, 6, 7, 8, 9, 10, 11, 12, 13, 14, 15, 10, 11, 12, 13, 14, 15]) c"

fun unquote_ascii :: "string \<Rightarrow> string" where
  \<comment> \<open>\<open>urllib.parse.unquote\<close> on the ASCII strings evaluated below, whose escapes are all
      below \<open>%80\<close>: each such \<open>%XX\<close> becomes the ASCII character \<open>XX\<close>, in one pass, and a
      \<open>%\<close> not followed by two hex digits stays. An escape from \<open>%80\<close> on, which the library
      decodes as UTF-8, is outside this example function and is left as it is\<close>
  "unquote_ascii [] = []"
| "unquote_ascii (c # r) =
     (if c = CHR ''%'' then
        (case r of
           a # b # r' \<Rightarrow>
             (case (hex_val a, hex_val b) of
                (Some x, Some y) \<Rightarrow>
                  if x < 8 then char_of (16 * x + y) # unquote_ascii r' else c # unquote_ascii r
              | _ \<Rightarrow> c # unquote_ascii r)
         | _ \<Rightarrow> c # unquote_ascii r)
      else c # unquote_ascii r)"

definition example_lib :: lib where
  "example_lib =
     \<lparr>super_guess_type = (\<lambda>p. if endswith p ''.mp3'' then ''audio/mpeg''
                               else if endswith p ''.html'' then ''text/html''
                               else ''application/octet-stream''),
      to_local = (\<lambda>p. ''/srv'' @ p),
      urlsplit_path = (\<lambda>p. Inr (takeWhile (\<lambda>c. c \<noteq> CHR ''?'') p)),
      redirect_url = (\<lambda>p. p @ ''/''),
      version_string = ''SimpleHTTP/0.6 Python/3.11.10'',
      date_time_string = ''Wed, 04 Nov 2026 10:00:00 GMT'',
      protocol_version = ''HTTP/1.0'',
      error_body = (\<lambda>code message. ''<h1>'' @ message @ ''</h1>''),
      error_content_type = ''text/html;charset=utf-8'',
      fs_encoding = ''utf-8'',
      unquote = unquote_ascii\<rparr>"

definition example_fs :: fsys where
  \<comment> \<open>one recording of 500 bytes, \<open>/srv/rec.wav\<close>, also reachable as \<open>/srv/rec.Wav\<close>\<close>
  "example_fs =
     \<lparr>isdir = (\<lambda>p. p = ''/srv/''),
      isfile = (\<lambda>p. p = ''/srv/rec.wav'' \<or> p = ''/srv/rec.Wav''),
      open_rb = (\<lambda>p. if p = ''/srv/rec.wav'' \<or> p = ''/srv/rec.Wav''
                      then Inr \<lparr>content = replicate 500 CHR ''x'', fstat_error = None,
                                st_size = 500,
                                last_modified = ''Tue, 03 Nov 2026 23:00:00 GMT''\<rparr>
                      else Inl OSError),
      not_modified_since = (\<lambda>v f. False),
      listdir = (\<lambda>p. Inr [''rec.wav'']),
      listing_page = (\<lambda>p names raw. Inr ''<ul></ul>'')\<rparr>"

definition example_request :: "string \<Rightarrow> string \<Rightarrow> (string \<times> string) list \<Rightarrow> handler" where
  \<comment> \<open>the handler after \<open>parse_request\<close> of \<open>command path HTTP/1.1\<close>, nothing written yet,
      the peer staying connected\<close>
  "example_request cmd p hs =
     \<lparr>command = cmd, path = p, requestline = cmd @ '' '' @ p @ '' HTTP/1.1'',
      request_version = ''HTTP/1.1'',
      headers = hs, headers_buffer = [], close_connection = False,
      wfile = [], peer = [], stdout = []\<rparr>"

section \<open>The directory tree and \<open>pathlib\<close> globbing\<close>

text \<open>
  The launch helper looks at the served directory through \<open>Path.glob\<close> and \<open>Path.rglob\<close>.
  A directory is the list of its entries in the order \<open>os.scandir\<close> reports them. The
  selectors follow \<open>pathlib\<close> of CPython 3.11 on POSIX: a pattern component without
  wildcard characters is looked up by name, one with wildcards is matched against every
  entry with \<open>fnmatch\<close> (case-sensitive, \<open>*\<close> also matching a leading dot), and \<open>**\<close> walks
  all directories, the starting one first. Of the wildcard characters only \<open>*\<close> is
  interpreted, the only one in the patterns of the program.
\<close>

datatype node = File | Dir "(string \<times> node) list"

definition is_dir :: "node \<Rightarrow> bool" where
  "is_dir n = (case n of File \<Rightarrow> False | Dir _ \<Rightarrow> True)"

fun fnmatch :: "string \<Rightarrow> string \<Rightarrow> bool" where
  \<comment> \<open>\<open>fnmatch(name, pat)\<close>: the whole name matches the pattern\<close>
  "fnmatch name [] \<longleftrightarrow> name = []"
| "fnmatch name (p # ps) \<longleftrightarrow>
     (if p = CHR ''*'' then
        fnmatch name ps \<or> (case name of [] \<Rightarrow> False | c # cs \<Rightarrow> fnmatch cs (p # ps))
      else (case name of [] \<Rightarrow> False | c # cs \<Rightarrow> c = p \<and> fnmatch cs ps))"

definition is_wildcard_pattern :: "string \<Rightarrow> bool" where
  "is_wildcard_pattern pat \<longleftrightarrow>
     CHR ''*'' \<in> set pat \<or> CHR ''?'' \<in> set pat \<or> CHR ''['' \<in> set pat"

fun select_from :: "string list \<Rightarrow> node \<Rightarrow> string list list" where
  \<comment> \<open>the selector chain for the pattern components, applied to a node; a result is the
      list of the names from that node down to the match\<close>
  "select_from [] n = [[]]"
| "select_from (pat # rest) File = []"
| "select_from (pat # rest) (Dir es) =
     (if is_wildcard_pattern pat then
        concat (map (\<lambda>(name, child).
                       if (rest \<noteq> [] \<longrightarrow> is_dir child) \<and> fnmatch name pat
                       then map ((#) name) (select_from rest child) else []) es)
      else (case map_of es pat of
              None \<Rightarrow> []
            | Some child \<Rightarrow>
                if rest \<noteq> [] \<longrightarrow> is_dir child then map ((#) pat) (select_from rest child)
                else []))"

fun split_on :: "char \<Rightarrow> string \<Rightarrow> string list" where
  "split_on sep [] = [[]]"
| "split_on sep (c # cs) =
     (if c = sep then [] # split_on sep cs
      else (case split_on sep cs of w # ws \<Rightarrow> (c # w) # ws | [] \<Rightarrow> [[c]]))"

definition pattern_parts :: "string \<Rightarrow> string list" where
  \<comment> \<open>\<open>parse_parts\<close> on a relative pattern: the components between slashes, without the
      empty ones and the dots\<close>
  "pattern_parts pattern = filter (\<lambda>w. w \<noteq> [] \<and> w \<noteq> ''.'') (split_on CHR ''/'' pattern)"

definition glob :: "node \<Rightarrow> string \<Rightarrow> string list list" where
  \<comment> \<open>\<open>list(path.glob(pattern))\<close>, each match relative to \<open>path\<close>\<close>
  "glob t pattern = select_from (pattern_parts pattern) t"

fun iterate_directories :: "node \<Rightarrow> (string list \<times> node) list" where
  \<comment> \<open>\<open>_RecursiveWildcardSelector._iterate_directories\<close>: the directory, then the
      directories below each of its entries\<close>
  "iterate_directories File = []"
| "iterate_directories (Dir es) =
     ([], Dir es) #
     concat (map (\<lambda>e. map (\<lambda>(p, d). (fst e # p, d)) (iterate_directories (snd e))) es)"

fun not_yielded :: "'a list \<Rightarrow> 'a list \<Rightarrow> 'a list" where
  \<comment> \<open>the \<open>yielded\<close> set of the recursive selector: a path comes out once\<close>
  "not_yielded yielded [] = []"
| "not_yielded yielded (x # xs) =
     (if x \<in> set yielded then not_yielded yielded xs else x # not_yielded (x # yielded) xs)"

definition rglob :: "node \<Rightarrow> string \<Rightarrow> string list list" where
  \<comment> \<open>\<open>list(path.rglob(pattern))\<close>\<close>
  "rglob t pattern =
     not_yielded []
       (concat (map (\<lambda>(p, d). map ((@) p) (select_from (pattern_parts pattern) d))
                    (iterate_directories t)))"

section \<open>The launch helper\<close>

definition name_of :: "string list \<Rightarrow> string" where
  \<comment> \<open>\<open>p.name\<close>: the last component\<close>
  "name_of p = (if p = [] then [] else last p)"

fun path_str :: "string list \<Rightarrow> string" where
  \<comment> \<open>\<open>str(p)\<close> of a relative path\<close>
  "path_str [] = ''.''"
| "path_str [a] = a"
| "path_str (a # b # r) = a @ ''/'' @ path_str (b # r)"

definition patterns :: "string list" where
  "patterns = [''audiomoth_reporte.html'', ''reporte.html'', ''*audiomoth*.html'']"

fun root_search :: "node \<Rightarrow> string list \<Rightarrow> string option" where
  \<comment> \<open>the first loop of \<open>find_html_report\<close>\<close>
  "root_search t [] = None"
| "root_search t (pattern # ps) =
     (case glob t pattern of
        m # _ \<Rightarrow> Some (name_of m)
      | [] \<Rightarrow> root_search t ps)"

fun subdir_search :: "node \<Rightarrow> string list \<Rightarrow> string option" where
  \<comment> \<open>the second loop of \<open>find_html_report\<close>\<close>
  "subdir_search t [] = None"
| "subdir_search t (pattern # ps) =
     (case glob t (''*/'' @ pattern) of
        m # _ \<Rightarrow> Some (path_str m)
      | [] \<Rightarrow>
          (case glob t (''*/*/'' @ pattern) of
             m # _ \<Rightarrow> Some (path_str m)
           | [] \<Rightarrow> subdir_search t ps))"

definition find_html_report :: "node \<Rightarrow> string option" where
  "find_html_report t =
     (case root_search t patterns of
        Some r \<Rightarrow> Some r
      | None \<Rightarrow> subdir_search t patterns)"

definition count_wav_files :: "node \<Rightarrow> nat" where
  "count_wav_files t = length (rglob t ''*.wav'') + length (rglob t ''*.WAV'')"

subsection \<open>What the specification says about the launch helper\<close>

definition first_match :: "('a \<Rightarrow> 'b) \<Rightarrow> 'a list list \<Rightarrow> 'b option" where
  \<comment> \<open>the first element of the first non-empty list of matches\<close>
  "first_match f ms = (case concat ms of [] \<Rightarrow> None | m # _ \<Rightarrow> Some (f m))"

definition report_by_depth :: "node \<Rightarrow> string option" where
  \<comment> \<open>the specification's order: every pattern at the root, then every pattern one level
      down, then every pattern two levels down\<close>
  "report_by_depth t =
     (case first_match name_of (map (glob t) patterns) of
        Some r \<Rightarrow> Some r
      | None \<Rightarrow>
          first_match path_str
            (map (\<lambda>pattern. glob t (''*/'' @ pattern)) patterns
             @ map (\<lambda>pattern. glob t (''*/*/'' @ pattern)) patterns))"

definition report_by_pattern :: "node \<Rightarrow> string option" where
  \<comment> \<open>every pattern at the root, then for each pattern in turn one level down and two
      levels down\<close>
  "report_by_pattern t =
     (case first_match name_of (map (glob t) patterns) of
        Some r \<Rightarrow> Some r
      | None \<Rightarrow>
          first_match path_str
            (concat (map (\<lambda>pattern. [glob t (''*/'' @ pattern), glob t (''*/*/'' @ pattern)])
                         patterns)))"

fun count_entries :: "(string \<Rightarrow> node \<Rightarrow> bool) \<Rightarrow> node \<Rightarrow> nat" where
  \<comment> \<open>the number of entries, at any depth below the node, that satisfy the predicate\<close>
  "count_entries P File = 0"
| "count_entries P (Dir es) =
     sum_list (map (\<lambda>e. (if P (fst e) (snd e) then 1 else 0) + count_entries P (snd e)) es)"

fun distinct_names :: "node \<Rightarrow> bool" where
  \<comment> \<open>no directory of the tree lists a name twice\<close>
  "distinct_names File \<longleftrightarrow> True"
| "distinct_names (Dir es) \<longleftrightarrow>
     distinct (map fst es) \<and> list_all (\<lambda>e. distinct_names (snd e)) es"

definition wav_name :: "string \<Rightarrow> bool" where
  "wav_name n \<longleftrightarrow> endswith n ''.wav'' \<or> endswith n ''.WAV''"

subsection \<open>Example trees and the matches of a recursive search\<close>

definition example_tree :: node where
  "example_tree = Dir [(''notes.txt'', File), (''sub'', Dir [(''audiomoth_reporte.html'', File)])]"

definition interleaved_tree :: node where
  "interleaved_tree =
     Dir [(''a'', Dir [(''reporte.html'', File), (''b'', Dir [(''audiomoth_reporte.html'', File)])])]"

fun walk :: "string \<Rightarrow> node \<Rightarrow> string list list" where
  \<comment> \<open>the paths of all entries below a node whose name matches the pattern: the
      entries of the node itself first, then those below each entry in turn\<close>
  "walk pat File = []"
| "walk pat (Dir es) =
     map (\<lambda>e. [fst e]) (filter (\<lambda>e. fnmatch (fst e) pat) es)
     @ concat (map (\<lambda>e. map ((#) (fst e)) (walk pat (snd e))) es)"

definition recordings :: node where
  "recordings =
     Dir [(''a.wav'', File), (''b.wav'', File), (''c.wav'', File), (''notes.txt'', File),
          (''night'', Dir [(''d.wav'', File), (''e.wav'', File)])]"

section \<open>Properties kept by every method\<close>

text \<open>
  A property of the handler state is preserved when the primitive steps of the inherited
  methods keep it: printing, buffering a header of the base class, buffering the status
  line, writing body data, and ending the headers.
\<close>

definition base_header_names :: "string list" where
  "base_header_names = [''Server'', ''Date'', ''Connection'', ''Content-Type'', ''Content-Length'',
                        ''Content-type'', ''Last-Modified'', ''Location'']"

definition preserved :: "lib \<Rightarrow> (handler \<Rightarrow> bool) \<Rightarrow> bool" where
  "preserved L I \<longleftrightarrow>
     (\<forall>h. I h \<longrightarrow>
        (\<forall>s. I (h\<lparr>stdout := s\<rparr>))
        \<and> (\<forall>k\<in>set base_header_names. \<forall>v. I (send_header k v h))
        \<and> (\<forall>c m. I (send_response_only L c m h))
        \<and> (\<forall>d. I (snd (wfile_write (Data d) h)))
        \<and> I (snd (end_headers h)))"

definition cors_lines :: "hline list" where
  "cors_lines = [HeaderLine ''Access-Control-Allow-Origin'' ''*'',
                 HeaderLine ''Access-Control-Allow-Methods'' ''GET, OPTIONS'',
                 HeaderLine ''Access-Control-Allow-Headers'' ''*'']"

definition audio_lines :: "hline list" where
  "audio_lines = [HeaderLine ''Cache-Control'' ''max-age=3600'', HeaderLine ''Accept-Ranges'' ''bytes'']"

definition audio_suffixes :: "string list" where
  "audio_suffixes = [''.wav'', ''.WAV'', ''.mp3'', ''.MP3'']"

definition heads_all :: "(hline list \<Rightarrow> bool) \<Rightarrow> handler \<Rightarrow> bool" where
  \<comment> \<open>every header block written to the socket so far satisfies \<open>P\<close>\<close>
  "heads_all P h \<longleftrightarrow> (\<forall>hs\<in>set (wire_heads (wfile h)). P hs)"

definition no_audio :: "hline list \<Rightarrow> bool" where
  \<comment> \<open>neither a \<open>Cache-Control\<close> nor an \<open>Accept-Ranges\<close> header, whatever the value\<close>
  "no_audio hs \<longleftrightarrow> header_values ''Cache-Control'' hs = [] \<and> header_values ''Accept-Ranges'' hs = []"

section \<open>The effect of a request, written out\<close>

text \<open>
  Abbreviations for what the methods leave behind: the line \<open>log_message\<close> prints for a
  request, the start of every header block, and the header block of a file response.
\<close>

definition has_ext :: "string \<Rightarrow> bool" where
  \<comment> \<open>one of the five extensions \<open>log_message\<close> looks for occurs in the string\<close>
  "has_ext s \<longleftrightarrow> list_ex (\<lambda>ext. py_in ext s) [''.wav'', ''.WAV'', ''.html'', ''.mp3'', ''.MP3'']"

definition request_log_line :: "lib \<Rightarrow> string \<Rightarrow> nat \<Rightarrow> string" where
  "request_log_line L rl code =
     ''[Servidor] '' @ unquote L ([CHR 0x22] @ rl @ [CHR 0x22] @ '' '' @ str_nat code @ '' -'')"

definition logged :: "lib \<Rightarrow> nat \<Rightarrow> handler \<Rightarrow> handler" where
  "logged L code h =
     (if has_ext (requestline h)
      then h\<lparr>stdout := stdout h @ [request_log_line L (requestline h) code]\<rparr>
      else h)"

definition response_start :: "lib \<Rightarrow> nat \<Rightarrow> string \<Rightarrow> hline list" where
  "response_start L code message =
     [StatusLine (protocol_version L) code message,
      HeaderLine ''Server'' (version_string L), HeaderLine ''Date'' (date_time_string L)]"

definition reason :: "nat \<Rightarrow> string option \<Rightarrow> string" where
  "reason code m = (case m of None \<Rightarrow> (case responses code of Some m \<Rightarrow> m | None \<Rightarrow> []) | Some m \<Rightarrow> m)"

definition file_head :: "lib \<Rightarrow> string \<Rightarrow> fileobj \<Rightarrow> hline list" where
  "file_head L p f =
     response_start L 200 ''OK''
     @ [HeaderLine ''Content-type'' (guess_type L p),
        HeaderLine ''Content-Length'' (str_nat (st_size f)),
        HeaderLine ''Last-Modified'' (last_modified f)]"

section \<open>Facts about strings\<close>

lemma endswith_iff: "endswith s suf \<longleftrightarrow> (\<exists>a. s = a @ suf)"
proof
  assume "endswith s suf"
  then have "s = take (length s - length suf) s @ suf"
    by (metis append_take_drop_id endswith_def)
  then show "\<exists>a. s = a @ suf" ..
next
  assume "\<exists>a. s = a @ suf"
  then show "endswith s suf"
    by (auto simp: endswith_def)
qed

lemma lower_append: "lower (a @ b) = lower a @ lower b"
  by (simp add: lower_def)

lemma lower_char_wav:
  "lower_char CHR ''.'' = CHR ''.''"
  "lower_char CHR ''w'' = CHR ''w''" "lower_char CHR ''W'' = CHR ''w''"
  "lower_char CHR ''a'' = CHR ''a''" "lower_char CHR ''A'' = CHR ''a''"
  "lower_char CHR ''v'' = CHR ''v''" "lower_char CHR ''V'' = CHR ''v''"
  by (simp_all add: lower_char_def)

section \<open>Facts about the handler\<close>

lemma preservedD:
  assumes "preserved L I" "I h"
  shows "I (h\<lparr>stdout := s\<rparr>)"
    and "k \<in> set base_header_names \<Longrightarrow> I (send_header k v h)"
    and "I (send_response_only L c m h)"
    and "I (snd (wfile_write (Data d) h))"
    and "I (snd (end_headers h))"
  using assms unfolding preserved_def by blast+

lemma seq_keeps:
  assumes "\<And>h. I h \<Longrightarrow> I (snd (f h))" "\<And>h. I h \<Longrightarrow> I (snd (g h))" "I h"
  shows "I (snd (seq f g h))"
proof (cases "f h")
  case (Pair r h')
  with assms(1)[OF assms(3)] have "I h'" by simp
  with Pair assms(2)[of h'] show ?thesis
    by (cases r) (simp_all add: seq_def)
qed

lemma pure_keeps: "(\<And>h. I h \<Longrightarrow> I (f h)) \<Longrightarrow> I h \<Longrightarrow> I (snd (pure f h))"
  by (simp add: pure_def)

lemma returning_keeps: "I (snd (f h)) \<Longrightarrow> I (snd (returning x f h))"
  by (cases "f h") (auto simp: returning_def split: option.splits)

lemma log_message_keeps: "preserved L I \<Longrightarrow> I h \<Longrightarrow> I (snd (log_message L fmt args h))"
  by (auto simp: log_message_def Let_def preservedD(1) split: sum.splits)

lemma log_error_keeps: "preserved L I \<Longrightarrow> I h \<Longrightarrow> I (snd (log_error L fmt args h))"
  by (simp add: log_error_def super_log_error_def log_message_keeps)

lemma log_request_keeps: "preserved L I \<Longrightarrow> I h \<Longrightarrow> I (snd (log_request L code h))"
  by (simp add: log_request_def log_message_keeps)

lemma base_names:
  "''Server'' \<in> set base_header_names" "''Date'' \<in> set base_header_names"
  "''Connection'' \<in> set base_header_names" "''Content-Type'' \<in> set base_header_names"
  "''Content-Length'' \<in> set base_header_names" "''Content-type'' \<in> set base_header_names"
  "''Last-Modified'' \<in> set base_header_names" "''Location'' \<in> set base_header_names"
  by (simp_all add: base_header_names_def)

lemma send_response_keeps:
  assumes "preserved L I" "I h"
  shows "I (snd (send_response L code m h))"
  unfolding send_response_def
  by (rule seq_keeps[where I=I, OF _ _ assms(2)])
     (simp_all add: log_request_keeps[OF assms(1)] pure_def preservedD[OF assms(1)] base_names)

lemma end_headers_keeps: "preserved L I \<Longrightarrow> I h \<Longrightarrow> I (snd (end_headers h))"
  by (rule preservedD(5))

lemma send_error_keeps:
  assumes "preserved L I" "I h"
  shows "I (snd (send_error L code m h))"
  unfolding send_error_def Let_def
  apply (rule seq_keeps[where I=I, OF _ _ assms(2)])
   apply (erule log_error_keeps[OF assms(1)])
  apply (rule seq_keeps[where I=I], erule send_response_keeps[OF assms(1)])
   apply (rule seq_keeps[where I=I], erule pure_keeps[rotated], erule preservedD(2)[OF assms(1)], rule base_names)
    apply (rule seq_keeps[where I=I])
      apply (simp add: pure_def preservedD[OF assms(1)] base_names split: option.splits)
     apply (rule seq_keeps[where I=I], erule end_headers_keeps[OF assms(1)])
      apply (simp add: preservedD[OF assms(1)] split: option.splits)
     apply assumption+
  done

lemma headers_block_keeps:
  assumes "preserved L I" "I h" "\<And>h. I h \<Longrightarrow> I (f h)"
  shows "I (snd (seq (send_response L code m) (seq (pure f) end_headers) h))"
  apply (rule seq_keeps[where I=I, OF _ _ assms(2)])
   apply (erule send_response_keeps[OF assms(1)])
  apply (rule seq_keeps[where I=I])
    apply (erule pure_keeps[rotated], erule assms(3))
   apply (erule end_headers_keeps[OF assms(1)])
  apply assumption
  done

lemma list_directory_keeps:
  assumes "preserved L I" "I h"
  shows "I (snd (list_directory L F p h))"
proof -
  have e: "I (snd (returning None (send_error L 404 ''No permission to list directory'') h))"
    by (rule returning_keeps) (rule send_error_keeps[OF assms])
  have f: "I (snd (returning x
            (seq (send_response L 200 None)
            (seq (pure (\<lambda>h. send_header ''Content-Length'' cl
                          (send_header ''Content-type'' ct h)))
                 end_headers)) h))" for x :: "string option" and cl ct
    by (rule returning_keeps, rule headers_block_keeps[OF assms])
       (simp add: preservedD[OF assms(1)] base_names)
  show ?thesis
    unfolding list_directory_def
    using e f assms(2) by (auto split: sum.splits)
qed

lemma send_head_file_keeps:
  assumes "preserved L I" "I h"
  shows "I (snd (send_head_file L F p h))"
proof -
  have e: "I (snd (returning None (send_error L 404 ''File not found'') h))"
    by (rule returning_keeps) (rule send_error_keeps[OF assms])
  have n: "I (snd (returning None (seq (send_response L 304 None) end_headers) h))"
    by (rule returning_keeps, rule seq_keeps[where I=I, OF _ _ assms(2)])
       (erule send_response_keeps[OF assms(1)], erule end_headers_keeps[OF assms(1)])
  have f: "I (snd (returning x
                       (seq (send_response L 200 None)
                       (seq (pure (\<lambda>h. send_header ''Last-Modified'' lm
                                     (send_header ''Content-Length'' cl
                                       (send_header ''Content-type'' ct h))))
                            end_headers)) h))" for x :: "string option" and lm cl ct
    by (rule returning_keeps, rule headers_block_keeps[OF assms])
       (simp add: preservedD[OF assms(1)] base_names)
  show ?thesis
    unfolding send_head_file_def Let_def
    using e n f assms(2) by (auto split: option.splits sum.splits)
qed

lemma send_head_keeps:
  assumes "preserved L I" "I h"
  shows "I (snd (send_head L F h))"
proof -
  have r: "I (snd (returning None
             (seq (send_response L 301 None)
             (seq (pure (\<lambda>h. send_header ''Content-Length'' ''0''
                           (send_header ''Location'' (redirect_url L (path h)) h)))
                  end_headers)) h))"
    by (rule returning_keeps, rule headers_block_keeps[OF assms])
       (simp add: preservedD[OF assms(1)] base_names)
  show ?thesis
    unfolding send_head_def Let_def
    using r send_head_file_keeps[OF assms] list_directory_keeps[OF assms] assms(2)
    by (auto split: option.splits sum.splits)
qed

lemma copyfile_keeps:
  assumes "preserved L I"
  shows "I h \<Longrightarrow> I (snd (copyfile src h))"
proof (induction src h rule: copyfile.induct)
  case (1 src h)
  show ?case
  proof (cases "take COPY_BUFSIZE src = []")
    case True
    with "1.prems" show ?thesis by (subst copyfile.simps) simp
  next
    case False
    obtain r h' where w: "wfile_write (Data (take COPY_BUFSIZE src)) h = (r, h')"
      by (cases "wfile_write (Data (take COPY_BUFSIZE src)) h")
    have h': "I h'"
      using preservedD(4)[OF assms "1.prems", of "take COPY_BUFSIZE src"] w by simp
    show ?thesis
    proof (cases r)
      case None
      with "1.IH"[OF False w[symmetric, unfolded None] refl h'] False w show ?thesis
        by (subst copyfile.simps) simp
    next
      case (Some e)
      with False w h' show ?thesis by (subst copyfile.simps) simp
    qed
  qed
qed

lemma super_do_GET_keeps:
  assumes "preserved L I" "I h"
  shows "I (snd (super_do_GET L F h))"
proof -
  obtain r h' where s: "send_head L F h = (r, h')" by (cases "send_head L F h")
  with send_head_keeps[OF assms, of F] have "I h'" by simp
  with s show ?thesis
    by (auto simp: super_do_GET_def copyfile_keeps[OF assms(1)]
             split: sum.splits option.splits)
qed

lemma do_GET_keeps:
  assumes "preserved L I" "I h"
  shows "I (snd (do_GET L F h))"
proof (cases "path h = ''/favicon.ico''")
  case True
  then show ?thesis
    unfolding do_GET_def
    by (auto intro!: seq_keeps[where I=I, OF _ _ assms(2)] send_response_keeps[OF assms(1)]
                     end_headers_keeps[OF assms(1)])
next
  case False
  obtain r h' where s: "super_do_GET L F h = (r, h')" by (cases "super_do_GET L F h")
  with super_do_GET_keeps[OF assms, of F] have "I h'" by simp
  with s False show ?thesis
    by (auto simp: do_GET_def split: option.splits)
qed

lemma do_OPTIONS_keeps:
  assumes "preserved L I" "I h"
  shows "I (snd (do_OPTIONS L h))"
  unfolding do_OPTIONS_def
  by (auto intro!: seq_keeps[where I=I, OF _ _ assms(2)] send_response_keeps[OF assms(1)]
                   end_headers_keeps[OF assms(1)])

lemma send_header_fields [simp]:
  "wfile (send_header k v h) = wfile h"
  "path (send_header k v h) = path h"
  "peer (send_header k v h) = peer h"
  "stdout (send_header k v h) = stdout h"
  "request_version (send_header k v h) = request_version h"
  "headers_buffer (send_header k v h) =
     (if request_version h \<noteq> ''HTTP/0.9'' then headers_buffer h @ [HeaderLine k v]
      else headers_buffer h)"
  by (simp_all add: send_header_def Let_def)

lemma send_response_only_fields [simp]:
  "wfile (send_response_only L c m h) = wfile h"
  "path (send_response_only L c m h) = path h"
  "peer (send_response_only L c m h) = peer h"
  "stdout (send_response_only L c m h) = stdout h"
  "request_version (send_response_only L c m h) = request_version h"
  "headers_buffer (send_response_only L c m h) =
     (if request_version h \<noteq> ''HTTP/0.9''
      then headers_buffer h @ [StatusLine (protocol_version L) c
                                 (case m of None \<Rightarrow> (case responses c of Some m \<Rightarrow> m | None \<Rightarrow> []) | Some m \<Rightarrow> m)]
      else headers_buffer h)"
  by (simp_all add: send_response_only_def Let_def)

lemma wfile_write_cases:
  "wfile_write d h = (None, h\<lparr>wfile := wfile h @ [d], peer := tl (peer h)\<rparr>)
   \<or> (\<exists>e. wfile_write d h = (Some e, h\<lparr>peer := tl (peer h)\<rparr>))"
  by (auto simp: wfile_write_def split: list.splits option.splits)

lemma send_header_plain:
  "length k \<noteq> 10 \<Longrightarrow>
     send_header k v h =
       (if request_version h \<noteq> ''HTTP/0.9''
        then h\<lparr>headers_buffer := headers_buffer h @ [HeaderLine k v]\<rparr> else h)"
proof -
  assume "length k \<noteq> 10"
  then have "lower k \<noteq> ''connection''"
    by (auto simp: lower_def dest: arg_cong[where f=length])
  then show ?thesis by (simp add: send_header_def Let_def)
qed

lemma flush_headers_cases:
  "flush_headers h =
     (None, h\<lparr>headers_buffer := [], wfile := wfile h @ [Head (headers_buffer h)], peer := tl (peer h)\<rparr>)
   \<or> (\<exists>e. flush_headers h = (Some e, h\<lparr>peer := tl (peer h)\<rparr>))"
  by (cases "peer h"; simp add: flush_headers_def wfile_write_def split: option.splits)

lemma end_headers_eq:
  "request_version h \<noteq> ''HTTP/0.9'' \<Longrightarrow>
   end_headers h =
     flush_headers (h\<lparr>headers_buffer := headers_buffer h @ cors_lines
                        @ (if endswith_any (path h) audio_suffixes then audio_lines else [])\<rparr>)"
  by (simp add: end_headers_def Let_def send_header_plain super_end_headers_def
                cors_lines_def audio_lines_def audio_suffixes_def)

lemma end_headers_versionless:
  "request_version h = ''HTTP/0.9'' \<Longrightarrow> end_headers h = (None, h)"
  by (simp add: end_headers_def Let_def send_header_plain super_end_headers_def)

lemma end_headers_cases:
  "end_headers h =
     (None, h\<lparr>headers_buffer := [],
              wfile := wfile h @ [Head (headers_buffer h @ cors_lines
                                        @ (if endswith_any (path h) audio_suffixes then audio_lines else []))],
              peer := tl (peer h)\<rparr>)
   \<or> (\<exists>e. end_headers h =
          (Some e, h\<lparr>headers_buffer := headers_buffer h @ cors_lines
                         @ (if endswith_any (path h) audio_suffixes then audio_lines else []),
                      peer := tl (peer h)\<rparr>))
   \<or> end_headers h = (None, h)"
proof (cases "request_version h = ''HTTP/0.9''")
  case True
  then show ?thesis by (simp add: end_headers_versionless)
next
  case False
  show ?thesis
    using flush_headers_cases[of "h\<lparr>headers_buffer := headers_buffer h @ cors_lines
                        @ (if endswith_any (path h) audio_suffixes then audio_lines else [])\<rparr>"]
    unfolding end_headers_eq[OF False] by (auto split del: if_split)
qed

lemma wire_heads_simps [simp]:
  "wire_heads [] = []"
  "wire_heads (w @ w') = wire_heads w @ wire_heads w'"
  "wire_heads [Head hs] = [hs]"
  "wire_heads [Data d] = []"
  by (simp_all add: wire_heads_def)

lemma wire_heads_write_data [simp]:
  "wire_heads (wfile (snd (wfile_write (Data d) h))) = wire_heads (wfile h)"
  using wfile_write_cases[of "Data d" h] by auto

lemma write_data_fields [simp]:
  "path (snd (wfile_write c h)) = path h"
  "headers_buffer (snd (wfile_write c h)) = headers_buffer h"
  using wfile_write_cases[of c h] by auto

lemma end_headers_path [simp]: "path (snd (end_headers h)) = path h"
  using end_headers_cases[of h] by auto

lemma cors_preserved: "preserved L (heads_all cors)"
  unfolding preserved_def heads_all_def
proof (intro allI impI conjI ballI)
  fix h :: handler assume I: "\<forall>hs\<in>set (wire_heads (wfile h)). cors hs"
  show "\<And>hs. hs \<in> set (wire_heads (wfile (snd (end_headers h)))) \<Longrightarrow> cors hs"
    using I end_headers_cases[of h] by (auto simp: cors_def cors_lines_def)
qed simp_all

lemma audio_preserved:
  "preserved L (\<lambda>h. endswith_any (path h) audio_suffixes \<and> heads_all audio_headers h)"
  unfolding preserved_def heads_all_def
proof (intro allI impI conjI ballI)
  fix h :: handler
  assume I: "endswith_any (path h) audio_suffixes \<and> (\<forall>hs\<in>set (wire_heads (wfile h)). audio_headers hs)"
  show "\<And>hs. hs \<in> set (wire_heads (wfile (snd (end_headers h)))) \<Longrightarrow> audio_headers hs"
    using I end_headers_cases[of h] by (auto simp: audio_headers_def audio_lines_def)
qed simp_all

lemma header_values_simps [simp]:
  "header_values k [] = []"
  "header_values k (a @ b) = header_values k a @ header_values k b"
  "header_values k [HeaderLine k' v] = (if k' = k then [v] else [])"
  "header_values k [StatusLine pv c m] = []"
  by (simp_all add: header_values_def)

lemma no_audio_simps [simp]:
  "no_audio []"
  "no_audio (a @ b) \<longleftrightarrow> no_audio a \<and> no_audio b"
  "no_audio [StatusLine pv c m]"
  "no_audio [HeaderLine k v] \<longleftrightarrow> k \<noteq> ''Cache-Control'' \<and> k \<noteq> ''Accept-Ranges''"
  by (auto simp: no_audio_def)

lemma no_audio_cors: "no_audio cors_lines"
  by (simp add: no_audio_def cors_lines_def header_values_def)

lemma no_audio_preserved:
  "preserved L (\<lambda>h. \<not> endswith_any (path h) audio_suffixes \<and> no_audio (headers_buffer h)
                    \<and> heads_all no_audio h)"
  unfolding preserved_def heads_all_def
proof (intro allI impI conjI ballI)
  fix h :: handler
  assume I: "\<not> endswith_any (path h) audio_suffixes \<and> no_audio (headers_buffer h)
             \<and> (\<forall>hs\<in>set (wire_heads (wfile h)). no_audio hs)"
  show "\<And>hs. hs \<in> set (wire_heads (wfile (snd (end_headers h)))) \<Longrightarrow> no_audio hs"
    using I end_headers_cases[of h] by (auto simp: no_audio_cors)
  show "no_audio (headers_buffer (snd (end_headers h)))"
    using I end_headers_cases[of h] by (auto simp: no_audio_cors)
  show "\<And>k v. k \<in> set base_header_names \<Longrightarrow> no_audio (headers_buffer (send_header k v h))"
    using I by (auto simp: base_header_names_def)
qed (simp_all split: option.splits)

lemma endswith_after_char:
  assumes "c \<notin> set suf"
  shows "endswith (f @ c # q) suf \<longleftrightarrow> endswith q suf"
proof
  assume "endswith q suf"
  then obtain a where "q = a @ suf" unfolding endswith_iff ..
  then have "f @ c # q = (f @ c # a) @ suf" by simp
  then show "endswith (f @ c # q) suf" unfolding endswith_iff ..
next
  assume "endswith (f @ c # q) suf"
  then obtain a where a: "f @ c # q = a @ suf" unfolding endswith_iff ..
  then obtain us where "(f = a @ us \<and> us @ c # q = suf) \<or> (f @ us = a \<and> c # q = us @ suf)"
    unfolding append_eq_append_conv2 by blast
  then show "endswith q suf"
  proof
    assume "f = a @ us \<and> us @ c # q = suf"
    with assms show ?thesis by auto
  next
    assume h: "f @ us = a \<and> c # q = us @ suf"
    show ?thesis
    proof (cases us)
      case Nil
      with h assms show ?thesis by auto
    next
      case (Cons u us')
      with h have "q = us' @ suf" by simp
      then show ?thesis unfolding endswith_iff ..
    qed
  qed
qed

lemma endswith_any_after_query:
  "endswith_any (f @ CHR ''?'' # q) audio_suffixes \<longleftrightarrow> endswith_any q audio_suffixes"
  by (simp add: endswith_any_def audio_suffixes_def endswith_after_char)

lemma translate_path_query: "CHR ''?'' \<notin> set f \<Longrightarrow> translate_path L (f @ CHR ''?'' # q) = translate_path L f"
  by (simp add: translate_path_def takeWhile_tail)

section \<open>The response to a request for a file\<close>

lemma py_format_request:
  "py_format ''\"%s\" %s %s'' [PyStr a, PyStr b, PyStr c] = Inr ([CHR 0x22] @ a @ [CHR 0x22] @ '' '' @ b @ '' '' @ c)"
  by simp

lemma log_request_exact: "log_request L code h = (None, logged L code h)"
  by (simp add: log_request_def log_message_def logged_def has_ext_def request_log_line_def
                py_format_request del: py_format.simps)

lemma logged_fields [simp]:
  "wfile (logged L c h) = wfile h" "path (logged L c h) = path h" "peer (logged L c h) = peer h"
  "headers_buffer (logged L c h) = headers_buffer h" "command (logged L c h) = command h"
  "headers (logged L c h) = headers h" "requestline (logged L c h) = requestline h"
  "request_version (logged L c h) = request_version h"
  by (simp_all add: logged_def)

lemma send_response_exact:
  "request_version h \<noteq> ''HTTP/0.9'' \<Longrightarrow>
   send_response L code m h =
     (None, (logged L code h)\<lparr>headers_buffer := headers_buffer h @ response_start L code (reason code m)\<rparr>)"
  by (simp add: send_response_def seq_def log_request_exact pure_def send_header_plain
                send_response_only_def response_start_def reason_def)

lemma end_headers_open:
  "request_version h \<noteq> ''HTTP/0.9'' \<Longrightarrow> peer h = [] \<Longrightarrow>
   end_headers h =
     (None, h\<lparr>headers_buffer := [],
              wfile := wfile h @ [Head (headers_buffer h @ cors_lines
                 @ (if endswith_any (path h) audio_suffixes then audio_lines else []))]\<rparr>)"
  by (simp add: end_headers_eq flush_headers_def wfile_write_def)

lemma copyfile_open:
  "peer h = [] \<Longrightarrow>
   \<exists>ds. copyfile src h = (None, h\<lparr>wfile := wfile h @ map Data ds\<rparr>) \<and> concat ds = src"
proof (induction src h rule: copyfile.induct)
  case (1 src h)
  show ?case
  proof (cases "take COPY_BUFSIZE src = []")
    case True
    then have "src = []" by (auto simp: COPY_BUFSIZE_def)
    then have "copyfile src h = (None, h\<lparr>wfile := wfile h @ map Data []\<rparr>) \<and> concat [] = src"
      by (subst copyfile.simps) simp
    then show ?thesis by blast
  next
    case False
    let ?b = "take COPY_BUFSIZE src"
    let ?h = "h\<lparr>wfile := wfile h @ [Data ?b]\<rparr>"
    have w: "wfile_write (Data ?b) h = (None, ?h)"
      using "1.prems" by (simp add: wfile_write_def)
    have "peer ?h = []" using "1.prems" by simp
    from "1.IH"[OF False w[symmetric] refl this]
    obtain ds where ds: "copyfile (drop COPY_BUFSIZE src) ?h = (None, ?h\<lparr>wfile := wfile ?h @ map Data ds\<rparr>)"
      "concat ds = drop COPY_BUFSIZE src" by blast
    have "copyfile src h = (None, h\<lparr>wfile := wfile h @ map Data (?b # ds)\<rparr>) \<and> concat (?b # ds) = src"
      using False w ds by (subst copyfile.simps) simp
    then show ?thesis by blast
  qed
qed

lemma wire_body_simps [simp]:
  "wire_body [] = []"
  "wire_body (w @ w') = wire_body w @ wire_body w'"
  "wire_body (Head hs # w) = wire_body w"
  "wire_body (map Data ds) = concat ds"
  by (simp_all add: wire_body_def comp_def)

lemma wire_heads_more [simp]:
  "wire_heads (Head hs # w) = hs # wire_heads w"
  "wire_heads (map Data ds) = []"
  by (induction ds) (simp_all add: wire_heads_def)

lemma reason_200 [simp]: "reason 200 None = ''OK''" "reason 204 None = ''No Content''"
  by (simp_all add: reason_def responses_def)

lemma send_head_file_open:
  assumes "\<not> endswith p ''/''" "open_rb F p = Inr f" "fstat_error f = None"
    and "get_header ''If-Modified-Since'' (headers h) = None" "peer h = []"
    and "request_version h \<noteq> ''HTTP/0.9''"
  shows "send_head_file L F p h =
     (Inr (Some (content f)),
      (logged L 200 h)\<lparr>headers_buffer := [],
         wfile := wfile h @ [Head (headers_buffer h @ file_head L p f @ cors_lines
                    @ (if endswith_any (path h) audio_suffixes then audio_lines else []))]\<rparr>)"
  using assms
  by (simp add: send_head_file_def Let_def returning_def seq_def send_response_exact pure_def
                send_header_plain end_headers_open file_head_def)

lemma do_GET_file_open:
  assumes "path h \<noteq> ''/favicon.ico''" "\<not> isdir F (translate_path L (path h))"
    and "\<not> endswith (translate_path L (path h)) ''/''"
    and "open_rb F (translate_path L (path h)) = Inr f" "fstat_error f = None"
    and "get_header ''If-Modified-Since'' (headers h) = None" "peer h = []"
    and "request_version h \<noteq> ''HTTP/0.9''"
  shows "\<exists>ds. concat ds = content f \<and>
     do_GET L F h =
       (None,
        (logged L 200 h)\<lparr>headers_buffer := [],
           wfile := wfile h @ Head (headers_buffer h @ file_head L (translate_path L (path h)) f
                      @ cors_lines
                      @ (if endswith_any (path h) audio_suffixes then audio_lines else []))
                    # map Data ds\<rparr>)"
proof -
  let ?h = "(logged L 200 h)\<lparr>headers_buffer := [],
         wfile := wfile h @ [Head (headers_buffer h @ file_head L (translate_path L (path h)) f @ cors_lines
                    @ (if endswith_any (path h) audio_suffixes then audio_lines else []))]\<rparr>"
  have sh: "send_head L F h = (Inr (Some (content f)), ?h)"
    using assms(2) send_head_file_open[OF assms(3,4,5,6,7,8), of L]
    by (simp add: send_head_def Let_def)
  have "peer ?h = []" using assms(7) by simp
  from copyfile_open[OF this, of "content f"] obtain ds where
    ds: "copyfile (content f) ?h = (None, ?h\<lparr>wfile := wfile ?h @ map Data ds\<rparr>)" "concat ds = content f"
    by blast
  have "do_GET L F h = (None, ?h\<lparr>wfile := wfile ?h @ map Data ds\<rparr>)"
    using assms(1) sh ds(1) by (simp add: do_GET_def super_do_GET_def)
  with ds(2) show ?thesis by auto
qed

lemma do_GET_file_response:
  assumes "path h \<noteq> ''/favicon.ico''" "\<not> isdir F (translate_path L (path h))"
    and "\<not> endswith (translate_path L (path h)) ''/''"
    and "open_rb F (translate_path L (path h)) = Inr f" "fstat_error f = None"
    and "get_header ''If-Modified-Since'' (headers h) = None" "peer h = []"
    and "request_version h \<noteq> ''HTTP/0.9''"
    and "wfile h = []" "headers_buffer h = []"
  shows "fst (do_GET L F h) = None"
    and "wire_heads (wfile (snd (do_GET L F h))) =
           [file_head L (translate_path L (path h)) f @ cors_lines
            @ (if endswith_any (path h) audio_suffixes then audio_lines else [])]"
    and "wire_body (wfile (snd (do_GET L F h))) = content f"
  using do_GET_file_open[OF assms(1-8)] assms(9,10) by auto

section \<open>The example environment, evaluated\<close>

lemma example_translate:
  "CHR ''#'' \<notin> set p \<Longrightarrow> translate_path example_lib p = ''/srv'' @ takeWhile (\<lambda>c. c \<noteq> CHR ''?'') p"
  by (auto simp: translate_path_def example_lib_def takeWhile_eq_all_conv dest: set_takeWhileD)

lemma example_file:
  assumes "takeWhile (\<lambda>c. c \<noteq> CHR ''?'') p \<in> {''/rec.wav'', ''/rec.Wav''}" "CHR ''#'' \<notin> set p"
    and "get_header ''If-Modified-Since'' hs = None"
  shows "fst (do_GET example_lib example_fs (example_request ''GET'' p hs)) = None"
    and "wire_heads (wfile (snd (do_GET example_lib example_fs (example_request ''GET'' p hs)))) =
           [file_head example_lib (''/srv'' @ takeWhile (\<lambda>c. c \<noteq> CHR ''?'') p)
              \<lparr>content = replicate 500 CHR ''x'', fstat_error = None, st_size = 500,
                last_modified = ''Tue, 03 Nov 2026 23:00:00 GMT''\<rparr>
            @ cors_lines @ (if endswith_any p audio_suffixes then audio_lines else [])]"
    and "wire_body (wfile (snd (do_GET example_lib example_fs (example_request ''GET'' p hs)))) =
           replicate 500 CHR ''x''"
proof -
  let ?h = "example_request ''GET'' p hs"
  let ?f = "\<lparr>content = replicate 500 CHR ''x'', fstat_error = None, st_size = 500,
                last_modified = ''Tue, 03 Nov 2026 23:00:00 GMT''\<rparr>"
  have t: "translate_path example_lib (path ?h) = ''/srv'' @ takeWhile (\<lambda>c. c \<noteq> CHR ''?'') p"
    using assms(2) by (simp add: example_translate example_request_def)
  have 1: "path ?h \<noteq> ''/favicon.ico''" using assms(1) by (auto simp: example_request_def)
  have 2: "\<not> isdir example_fs (translate_path example_lib (path ?h))"
    unfolding t using assms(1) by (auto simp: example_fs_def)
  have 3: "\<not> endswith (translate_path example_lib (path ?h)) ''/''"
    unfolding t using assms(1) by (auto simp: endswith_def)
  have 4: "open_rb example_fs (translate_path example_lib (path ?h)) = Inr ?f"
    unfolding t using assms(1) by (auto simp: example_fs_def)
  have 5: "fstat_error ?f = None" by simp
  have 6: "get_header ''If-Modified-Since'' (headers ?h) = None"
    using assms(3) by (simp add: example_request_def)
  have 7: "peer ?h = []" "request_version ?h \<noteq> ''HTTP/0.9''" "wfile ?h = []" "headers_buffer ?h = []"
    by (simp_all add: example_request_def)
  note r = do_GET_file_response[OF 1 2 3 4 5 6 7]
  show "fst (do_GET example_lib example_fs ?h) = None" by (rule r(1))
  show "wire_heads (wfile (snd (do_GET example_lib example_fs ?h))) =
           [file_head example_lib (''/srv'' @ takeWhile (\<lambda>c. c \<noteq> CHR ''?'') p) ?f
            @ cors_lines @ (if endswith_any p audio_suffixes then audio_lines else [])]"
    using r(2) unfolding t by (simp add: example_request_def)
  show "wire_body (wfile (snd (do_GET example_lib example_fs ?h))) = replicate 500 CHR ''x''"
    using r(3) by simp
qed

lemma status_codes_simps [simp]:
  "status_codes [] = []"
  "status_codes (a @ b) = status_codes a @ status_codes b"
  "status_codes (StatusLine pv c m # r) = c # status_codes r"
  "status_codes (HeaderLine k v # r) = status_codes r"
  by (simp_all add: status_codes_def)

lemma header_values_Cons [simp]:
  "header_values k (StatusLine pv c m # r) = header_values k r"
  "header_values k (HeaderLine k' v # r) = (if k' = k then [v] else []) @ header_values k r"
  by (simp_all add: header_values_def)

lemma str_nat_500: "str_nat 500 = ''500''"
  by (simp add: str_nat.simps)

lemma no_ims: "get_header ''If-Modified-Since'' [] = None"
  by (simp add: get_header_def)

lemma fresh_example:
  "heads_all P (example_request cmd p hs)" "no_audio (headers_buffer (example_request cmd p hs))"
  "path (example_request cmd p hs) = p"
  by (simp_all add: heads_all_def example_request_def)

section \<open>Substrings, the favicon answer and a cut transfer\<close>

lemma startswith_iff: "startswith s pre \<longleftrightarrow> (\<exists>b. s = pre @ b)"
proof
  assume "startswith s pre"
  then have "s = pre @ drop (length pre) s"
    by (metis append_take_drop_id startswith_def)
  then show "\<exists>b. s = pre @ b" ..
next
  assume "\<exists>b. s = pre @ b"
  then show "startswith s pre" by (auto simp: startswith_def)
qed

lemma py_in_iff: "py_in sub s \<longleftrightarrow> (\<exists>a b. s = a @ sub @ b)"
proof (induction s)
  case Nil
  then show ?case by auto
next
  case (Cons c cs)
  show ?case
  proof
    assume "py_in sub (c # cs)"
    then consider "startswith (c # cs) sub" | "py_in sub cs" by auto
    then show "\<exists>a b. c # cs = a @ sub @ b"
    proof cases
      case 1
      then obtain b where "c # cs = sub @ b" unfolding startswith_iff ..
      then have "c # cs = [] @ sub @ b" by simp
      then show ?thesis by blast
    next
      case 2
      with Cons.IH obtain a b where "cs = a @ sub @ b" by blast
      then have "c # cs = (c # a) @ sub @ b" by simp
      then show ?thesis by blast
    qed
  next
    assume "\<exists>a b. c # cs = a @ sub @ b"
    then obtain a b where ab: "c # cs = a @ sub @ b" by blast
    show "py_in sub (c # cs)"
    proof (cases a)
      case Nil
      with ab have "startswith (c # cs) sub" unfolding startswith_iff by auto
      then show ?thesis by simp
    next
      case (Cons x a')
      with ab have "cs = a' @ sub @ b" by simp
      with Cons.IH have "py_in sub cs" by blast
      then show ?thesis by simp
    qed
  qed
qed

lemma py_in_sep:
  assumes "c \<notin> set e"
  shows "py_in e (u @ c # w) \<longleftrightarrow> py_in e u \<or> py_in e w"
proof
  assume "py_in e u \<or> py_in e w"
  then show "py_in e (u @ c # w)"
  proof
    assume "py_in e u"
    then obtain a b where "u = a @ e @ b" unfolding py_in_iff by blast
    then have "u @ c # w = a @ e @ (b @ c # w)" by simp
    then show ?thesis unfolding py_in_iff by blast
  next
    assume "py_in e w"
    then obtain a b where "w = a @ e @ b" unfolding py_in_iff by blast
    then have "u @ c # w = (u @ c # a) @ e @ b" by simp
    then show ?thesis unfolding py_in_iff by blast
  qed
next
  assume "py_in e (u @ c # w)"
  then obtain a b where ab: "u @ c # w = a @ (e @ b)" unfolding py_in_iff by auto
  then obtain us where "(u = a @ us \<and> us @ c # w = e @ b) \<or> (u @ us = a \<and> c # w = us @ e @ b)"
    unfolding append_eq_append_conv2 by blast
  then show "py_in e u \<or> py_in e w"
  proof
    assume h: "u = a @ us \<and> us @ c # w = e @ b"
    then obtain vs where "(us = e @ vs \<and> vs @ c # w = b) \<or> (us @ vs = e \<and> c # w = vs @ b)"
      unfolding append_eq_append_conv2 by blast
    then show ?thesis
    proof
      assume "us = e @ vs \<and> vs @ c # w = b"
      with h have "u = a @ e @ vs" by simp
      then show ?thesis unfolding py_in_iff by blast
    next
      assume v: "us @ vs = e \<and> c # w = vs @ b"
      show ?thesis
      proof (cases vs)
        case Nil
        with v h have "u = a @ e @ []" by simp
        then show ?thesis unfolding py_in_iff by blast
      next
        case (Cons x vs')
        with v have "c \<in> set e" by auto
        with assms show ?thesis by simp
      qed
    qed
  next
    assume h: "u @ us = a \<and> c # w = us @ e @ b"
    show ?thesis
    proof (cases us)
      case Nil
      with h have "c \<in> set e \<or> e = []" by (cases e) auto
      then show ?thesis
      proof
        assume "c \<in> set e" with assms show ?thesis by simp
      next
        assume "e = []"
        then have "u = [] @ e @ u" by simp
        then show ?thesis unfolding py_in_iff by blast
      qed
    next
      case (Cons x us')
      with h have "w = us' @ e @ b" by simp
      then show ?thesis unfolding py_in_iff by blast
    qed
  qed
qed

lemma has_ext_requestline:
  assumes "\<not> has_ext cmd" "\<not> has_ext ver"
  shows "has_ext (cmd @ '' '' @ p @ '' '' @ ver) \<longleftrightarrow> has_ext p"
proof -
  have c: "\<not> py_in e cmd" if "e \<in> set [''.wav'', ''.WAV'', ''.html'', ''.mp3'', ''.MP3'']" for e
    using assms(1) that unfolding has_ext_def list_ex_iff by blast
  have v: "\<not> py_in e ver" if "e \<in> set [''.wav'', ''.WAV'', ''.html'', ''.mp3'', ''.MP3'']" for e
    using assms(2) that unfolding has_ext_def list_ex_iff by blast
  have s: "CHR '' '' \<notin> set e" if "e \<in> set [''.wav'', ''.WAV'', ''.html'', ''.mp3'', ''.MP3'']" for e
    using that by auto
  have "py_in e (cmd @ '' '' @ p @ '' '' @ ver) \<longleftrightarrow> py_in e p"
    if "e \<in> set [''.wav'', ''.WAV'', ''.html'', ''.mp3'', ''.MP3'']" for e
    using c[OF that] v[OF that] py_in_sep[OF s[OF that]] by simp
  then show ?thesis
    unfolding has_ext_def list_ex_iff by blast
qed

lemma favicon_not_audio: "\<not> endswith_any ''/favicon.ico'' audio_suffixes"
  by (simp add: endswith_any_def audio_suffixes_def endswith_def)

lemma do_GET_favicon:
  "path h = ''/favicon.ico'' \<Longrightarrow> request_version h \<noteq> ''HTTP/0.9'' \<Longrightarrow>
   do_GET L F h =
     flush_headers ((logged L 204 h)\<lparr>headers_buffer :=
        headers_buffer h @ response_start L 204 ''No Content'' @ cors_lines\<rparr>)"
  using favicon_not_audio
  by (simp add: do_GET_def seq_def send_response_exact end_headers_eq)

lemma do_GET_favicon_versionless:
  "path h = ''/favicon.ico'' \<Longrightarrow> request_version h = ''HTTP/0.9'' \<Longrightarrow>
   do_GET L F h = (None, logged L 204 h)"
  by (simp add: do_GET_def seq_def send_response_def log_request_exact pure_def send_header_plain
                send_response_only_def end_headers_versionless)

lemma super_do_GET_file_cut:
  assumes "\<not> isdir F (translate_path L (path h))"
    and "\<not> endswith (translate_path L (path h)) ''/''"
    and "open_rb F (translate_path L (path h)) = Inr f" "fstat_error f = None"
    and "get_header ''If-Modified-Since'' (headers h) = None"
    and "request_version h \<noteq> ''HTTP/0.9''"
    and "peer h = [None, Some e]" "content f \<noteq> []"
  shows "super_do_GET L F h =
     (Some e,
      (logged L 200 h)\<lparr>headers_buffer := [],
         wfile := wfile h @ [Head (headers_buffer h @ file_head L (translate_path L (path h)) f
                    @ cors_lines
                    @ (if endswith_any (path h) audio_suffixes then audio_lines else []))],
         peer := []\<rparr>)"
proof -
  let ?h = "(logged L 200 h)\<lparr>headers_buffer := [],
         wfile := wfile h @ [Head (headers_buffer h @ file_head L (translate_path L (path h)) f
                    @ cors_lines
                    @ (if endswith_any (path h) audio_suffixes then audio_lines else []))],
         peer := [Some e]\<rparr>"
  have sh: "send_head L F h = (Inr (Some (content f)), ?h)"
    using assms(1-7)
    by (simp add: send_head_def send_head_file_def Let_def returning_def seq_def send_response_exact
                  pure_def send_header_plain end_headers_eq flush_headers_def wfile_write_def
                  file_head_def)
  have t: "take COPY_BUFSIZE (content f) \<noteq> []"
    using assms(8) by (simp add: COPY_BUFSIZE_def)
  have "copyfile (content f) ?h = (Some e, ?h\<lparr>peer := []\<rparr>)"
    using t by (subst copyfile.simps) (simp add: wfile_write_def)
  with sh show ?thesis
    by (simp add: super_do_GET_def)
qed

lemma do_GET_catches:
  "path h \<noteq> ''/favicon.ico'' \<Longrightarrow>
     snd (do_GET L F h) = snd (super_do_GET L F h)
     \<and> fst (do_GET L F h) =
         (if fst (super_do_GET L F h) \<in> {Some BrokenPipeError, Some ConnectionResetError} then None
          else fst (super_do_GET L F h))"
  by (cases "super_do_GET L F h") (auto simp: do_GET_def split: option.splits)

lemma log_error_suppressed:
  "args \<noteq> [] \<Longrightarrow> py_in ''Broken pipe'' (str (hd args)) \<or> py_in ''Connection reset'' (str (hd args)) \<Longrightarrow>
     log_error L fmt args h = (None, h)"
  by (auto simp: log_error_def)

section \<open>Facts about the launch helper\<close>

lemma first_match_Cons:
  "first_match f (m # ms) = (case m of [] \<Rightarrow> first_match f ms | x # _ \<Rightarrow> Some (f x))"
  by (simp add: first_match_def split: list.splits)

lemma first_match_Nil [simp]: "first_match f [] = None"
  by (simp add: first_match_def)

lemma head_case_None: "(case xs of [] \<Rightarrow> None | m # _ \<Rightarrow> Some (f m)) = None \<longleftrightarrow> xs = []"
  by (cases xs) simp_all

lemma first_match_None: "first_match f ms = None \<longleftrightarrow> (\<forall>m\<in>set ms. m = [])"
  unfolding first_match_def head_case_None by (rule concat_eq_Nil_conv)

lemma or_else_None:
  "(case x of Some r \<Rightarrow> Some r | None \<Rightarrow> y) = None \<longleftrightarrow> x = None \<and> y = None"
  by (cases x) simp_all

lemma root_search_first: "root_search t ps = first_match name_of (map (glob t) ps)"
  by (induction ps) (simp_all add: first_match_Cons split: list.splits)

lemma subdir_search_first:
  "subdir_search t ps =
     first_match path_str
       (concat (map (\<lambda>pattern. [glob t (''*/'' @ pattern), glob t (''*/*/'' @ pattern)]) ps))"
  by (induction ps) (simp_all add: first_match_Cons split: list.splits)

lemma find_html_report_by_pattern: "find_html_report t = report_by_pattern t"
  by (simp add: find_html_report_def report_by_pattern_def root_search_first subdir_search_first
           split: option.splits)

lemma find_html_report_None:
  "find_html_report t = None \<longleftrightarrow>
     (\<forall>p\<in>set patterns. glob t p = [] \<and> glob t (''*/'' @ p) = [] \<and> glob t (''*/*/'' @ p) = [])"
  unfolding find_html_report_by_pattern report_by_pattern_def or_else_None first_match_None
  by auto

lemma report_by_depth_None:
  "report_by_depth t = None \<longleftrightarrow>
     (\<forall>p\<in>set patterns. glob t p = [] \<and> glob t (''*/'' @ p) = [] \<and> glob t (''*/*/'' @ p) = [])"
  unfolding report_by_depth_def or_else_None first_match_None
  by auto

lemma first_match_Some:
  "\<exists>m\<in>set ms. m \<noteq> [] \<Longrightarrow> \<exists>r. first_match f ms = Some r"
  using first_match_None[of f ms] by (cases "first_match f ms") auto

lemma first_match_concat: "concat ms = concat ms' \<Longrightarrow> first_match f ms = first_match f ms'"
  by (simp add: first_match_def)

lemma interleave_empty:
  "\<forall>p\<in>set ps. g2 p = [] \<Longrightarrow>
     concat (concat (map (\<lambda>p. [g1 p, g2 p]) ps)) = concat (map g1 ps @ map g2 ps)"
  by (induction ps) simp_all

lemma fnmatch_literal: "CHR ''*'' \<notin> set lit \<Longrightarrow> fnmatch n lit \<longleftrightarrow> n = lit"
proof (induction lit arbitrary: n)
  case Nil
  then show ?case by simp
next
  case (Cons p ps)
  then have p: "p \<noteq> CHR ''*''" and ps: "CHR ''*'' \<notin> set ps" by auto
  show ?case
  proof (cases n)
    case Nil
    with p show ?thesis by simp
  next
    case (Cons c cs)
    with p Cons.IH[OF ps, of cs] show ?thesis by auto
  qed
qed

lemma map_append_Nil: "map ((@) []) xs = xs"
  by (induction xs) simp_all

lemma fnmatch_star: "fnmatch n (CHR ''*'' # ps) \<longleftrightarrow> (\<exists>a b. n = a @ b \<and> fnmatch b ps)"
proof (induction n)
  case Nil
  then show ?case by simp
next
  case (Cons c cs)
  show ?case
  proof
    assume "fnmatch (c # cs) (CHR ''*'' # ps)"
    then consider "fnmatch (c # cs) ps" | "fnmatch cs (CHR ''*'' # ps)" by auto
    then show "\<exists>a b. c # cs = a @ b \<and> fnmatch b ps"
    proof cases
      case 1
      then have "c # cs = [] @ (c # cs) \<and> fnmatch (c # cs) ps" by simp
      then show ?thesis by blast
    next
      case 2
      with Cons.IH obtain a b where "cs = a @ b" "fnmatch b ps" by blast
      then have "c # cs = (c # a) @ b \<and> fnmatch b ps" by simp
      then show ?thesis by blast
    qed
  next
    assume "\<exists>a b. c # cs = a @ b \<and> fnmatch b ps"
    then obtain a b where ab: "c # cs = a @ b" "fnmatch b ps" by blast
    show "fnmatch (c # cs) (CHR ''*'' # ps)"
    proof (cases a)
      case Nil
      with ab show ?thesis by simp
    next
      case (Cons x a')
      with ab have "cs = a' @ b" by simp
      with ab(2) Cons.IH have "fnmatch cs (CHR ''*'' # ps)" by blast
      then show ?thesis by simp
    qed
  qed
qed

lemma fnmatch_suffix: "CHR ''*'' \<notin> set lit \<Longrightarrow> fnmatch n (CHR ''*'' # lit) \<longleftrightarrow> endswith n lit"
  unfolding fnmatch_star endswith_iff by (auto simp: fnmatch_literal)

lemma select_one:
  "is_wildcard_pattern pat \<Longrightarrow>
   select_from [pat] (Dir es) = map (\<lambda>e. [fst e]) (filter (\<lambda>e. fnmatch (fst e) pat) es)"
  by (induction es) (auto simp: case_prod_beta)

lemma select_one_File: "select_from [pat] File = []"
  by simp

lemma iterate_prefix:
  "concat (map (\<lambda>(p, d). map ((@) p) (select_from [pat] d)) (map (\<lambda>(p, d). (x # p, d)) ds))
   = map ((#) x) (concat (map (\<lambda>(p, d). map ((@) p) (select_from [pat] d)) ds))"
  by (induction ds) (auto simp: case_prod_beta)

lemma rglob_walk:
  assumes "is_wildcard_pattern pat"
  shows "concat (map (\<lambda>(p, d). map ((@) p) (select_from [pat] d)) (iterate_directories t)) = walk pat t"
proof (induction t)
  case File
  then show ?case by simp
next
  case (Dir es)
  let ?S = "\<lambda>(p, d). map ((@) p) (select_from [pat] d)"
  have sub: "concat (map ?S (iterate_directories (snd e))) = walk pat (snd e)" if "e \<in> set es" for e
  proof -
    have "snd e \<in> Basic_BNFs.snds e" by (cases e) simp
    with Dir.IH[OF that] show ?thesis by blast
  qed
  have "concat (map ?S
           (concat (map (\<lambda>e. map (\<lambda>(p, d). (fst e # p, d)) (iterate_directories (snd e))) es')))
        = concat (map (\<lambda>e. map ((#) (fst e)) (walk pat (snd e))) es')"
    if "set es' \<subseteq> set es" for es'
    using that
  proof (induction es')
    case Nil
    then show ?case by simp
  next
    case (Cons e es')
    then have e: "e \<in> set es" and r: "set es' \<subseteq> set es" by simp_all
    have "concat (map ?S
           (concat (map (\<lambda>e. map (\<lambda>(p, d). (fst e # p, d)) (iterate_directories (snd e))) (e # es'))))
          = concat (map ?S (map (\<lambda>(p, d). (fst e # p, d)) (iterate_directories (snd e))))
            @ concat (map ?S
                (concat (map (\<lambda>e. map (\<lambda>(p, d). (fst e # p, d)) (iterate_directories (snd e))) es')))"
      by simp
    also have "\<dots> = map ((#) (fst e)) (walk pat (snd e))
            @ concat (map (\<lambda>e. map ((#) (fst e)) (walk pat (snd e))) es')"
      unfolding iterate_prefix sub[OF e] Cons.IH[OF r] ..
    finally show ?case by simp
  qed
  from this[of es] have rest: "concat (map ?S
           (concat (map (\<lambda>e. map (\<lambda>(p, d). (fst e # p, d)) (iterate_directories (snd e))) es)))
        = concat (map (\<lambda>e. map ((#) (fst e)) (walk pat (snd e))) es)" by simp
  have "concat (map ?S (iterate_directories (Dir es)))
        = select_from [pat] (Dir es) @ concat (map ?S
           (concat (map (\<lambda>e. map (\<lambda>(p, d). (fst e # p, d)) (iterate_directories (snd e))) es)))"
    by (simp add: map_append_Nil del: select_from.simps)
  then show ?case
    unfolding rest select_one[OF assms] by (simp add: map_append_Nil)
qed

lemma not_yielded_distinct:
  "distinct xs \<Longrightarrow> not_yielded ys xs = filter (\<lambda>x. x \<notin> set ys) xs"
proof (induction xs arbitrary: ys)
  case Nil
  then show ?case by simp
next
  case (Cons x xs)
  then have "not_yielded (x # ys) xs = filter (\<lambda>z. z \<notin> set (x # ys)) xs" by simp
  also have "\<dots> = filter (\<lambda>z. z \<notin> set ys) xs"
    using Cons.prems by (intro filter_cong) auto
  finally show ?case using Cons by simp
qed

lemma walk_heads: "p \<in> set (walk pat t) \<Longrightarrow> p \<noteq> []"
  by (cases t) auto

lemma distinct_walk: "distinct_names t \<Longrightarrow> distinct (walk pat t)"
proof (induction t)
  case File
  then show ?case by simp
next
  case (Dir es)
  have sub: "distinct (walk pat (snd e))" if "e \<in> set es" for e
  proof -
    have "snd e \<in> Basic_BNFs.snds e" by (cases e) simp
    moreover have "distinct_names (snd e)"
      using Dir.prems that by (auto simp: list_all_iff)
    ultimately show ?thesis using Dir.IH[OF that] by blast
  qed
  have names: "distinct (map fst es)" using Dir.prems by simp
  have d1: "distinct (map (\<lambda>e. [fst e]) (filter (\<lambda>e. fnmatch (fst e) pat) es))"
  proof -
    have "distinct (map fst (filter (\<lambda>e. fnmatch (fst e) pat) es))"
      using names by (rule distinct_map_filter)
    then have "distinct (map (\<lambda>n. [n]) (map fst (filter (\<lambda>e. fnmatch (fst e) pat) es)))"
      by (simp add: distinct_map inj_on_def)
    then show ?thesis by (simp add: comp_def)
  qed
  have d2: "distinct (concat (map (\<lambda>e. map ((#) (fst e)) (walk pat (snd e))) es'))"
    if "set es' \<subseteq> set es" "distinct (map fst es')" for es'
    using that
  proof (induction es')
    case Nil
    then show ?case by simp
  next
    case (Cons e es')
    then have e: "e \<in> set es" by simp
    have "distinct (map ((#) (fst e)) (walk pat (snd e)))"
      using sub[OF e] by (simp add: distinct_map inj_on_def)
    moreover have "distinct (concat (map (\<lambda>e. map ((#) (fst e)) (walk pat (snd e))) es'))"
      using Cons by simp
    moreover have "set (map ((#) (fst e)) (walk pat (snd e)))
                   \<inter> set (concat (map (\<lambda>e. map ((#) (fst e)) (walk pat (snd e))) es')) = {}"
      using Cons.prems(2) by (auto simp: image_iff)
    ultimately show ?case by simp
  qed
  have d3: "set (map (\<lambda>e. [fst e]) (filter (\<lambda>e. fnmatch (fst e) pat) es))
            \<inter> set (concat (map (\<lambda>e. map ((#) (fst e)) (walk pat (snd e))) es)) = {}"
    by (auto dest: walk_heads)
  show ?case
    using d1 d2[of es] names d3 by simp
qed

lemma length_walk: "length (walk pat t) = count_entries (\<lambda>n c. fnmatch n pat) t"
proof (induction t)
  case File
  then show ?case by simp
next
  case (Dir es)
  have sub: "length (walk pat (snd e)) = count_entries (\<lambda>n c. fnmatch n pat) (snd e)"
    if "e \<in> set es" for e
  proof -
    have "snd e \<in> Basic_BNFs.snds e" by (cases e) simp
    with Dir.IH[OF that] show ?thesis by blast
  qed
  have "length (filter (\<lambda>e. fnmatch (fst e) pat) es')
        + length (concat (map (\<lambda>e. map ((#) (fst e)) (walk pat (snd e))) es'))
        = sum_list (map (\<lambda>e. (if fnmatch (fst e) pat then 1 else 0)
                               + count_entries (\<lambda>n c. fnmatch n pat) (snd e)) es')"
    if "set es' \<subseteq> set es" for es'
    using that by (induction es') (auto simp: sub)
  from this[of es] show ?case by simp
qed

lemma count_entries_cong:
  "(\<And>n c. P n c = Q n c) \<Longrightarrow> count_entries P t = count_entries Q t"
proof -
  assume "\<And>n c. P n c = Q n c"
  then have "P = Q" by (intro ext)
  then show ?thesis by simp
qed

lemma count_entries_split:
  assumes "\<And>n c. \<not> (P n c \<and> Q n c)"
  shows "count_entries P t + count_entries Q t = count_entries (\<lambda>n c. P n c \<or> Q n c) t"
proof (induction t)
  case File
  then show ?case by simp
next
  case (Dir es)
  have sub: "count_entries P (snd e) + count_entries Q (snd e)
             = count_entries (\<lambda>n c. P n c \<or> Q n c) (snd e)" if "e \<in> set es" for e
  proof -
    have "snd e \<in> Basic_BNFs.snds e" by (cases e) simp
    with Dir.IH[OF that] show ?thesis by blast
  qed
  have "sum_list (map (\<lambda>e. (if P (fst e) (snd e) then 1 else 0) + count_entries P (snd e)) es')
        + sum_list (map (\<lambda>e. (if Q (fst e) (snd e) then 1 else 0) + count_entries Q (snd e)) es')
        = sum_list (map (\<lambda>e. (if P (fst e) (snd e) \<or> Q (fst e) (snd e) then 1 else 0)
                             + count_entries (\<lambda>n c. P n c \<or> Q n c) (snd e)) es')"
    if "set es' \<subseteq> set es" for es'
    using that
  proof (induction es')
    case Nil
    then show ?case by simp
  next
    case (Cons e es')
    then have e: "e \<in> set es" by simp
    from Cons sub[OF e, symmetric] assms[of "fst e" "snd e"] show ?case by auto
  qed
  from this[of es] show ?case by simp
qed

lemma wav_exclusive: "\<not> (endswith n ''.wav'' \<and> endswith n ''.WAV'')"
  by (auto simp: endswith_def)

lemma rglob_count:
  assumes "distinct_names t" "CHR ''*'' \<notin> set lit" "CHR ''/'' \<notin> set lit" "lit \<noteq> ''.''"
  shows "length (rglob t (CHR ''*'' # lit)) = count_entries (\<lambda>n c. endswith n lit) t"
proof -
  have pp: "pattern_parts (CHR ''*'' # lit) = [CHR ''*'' # lit]"
  proof -
    have "split_on CHR ''/'' s = [s]" if "CHR ''/'' \<notin> set s" for s
      using that by (induction s) auto
    then have "split_on CHR ''/'' (CHR ''*'' # lit) = [CHR ''*'' # lit]"
      using assms(3) by simp
    then show ?thesis by (simp add: pattern_parts_def)
  qed
  have w: "is_wildcard_pattern (CHR ''*'' # lit)" by (simp add: is_wildcard_pattern_def)
  have "rglob t (CHR ''*'' # lit) = not_yielded [] (walk (CHR ''*'' # lit) t)"
    unfolding rglob_def pp rglob_walk[OF w] ..
  also have "\<dots> = walk (CHR ''*'' # lit) t"
    using not_yielded_distinct[OF distinct_walk[OF assms(1)], of "[]"] by simp
  finally have "length (rglob t (CHR ''*'' # lit)) = count_entries (\<lambda>n c. fnmatch n (CHR ''*'' # lit)) t"
    by (simp add: length_walk)
  also have "\<dots> = count_entries (\<lambda>n c. endswith n lit) t"
    by (rule count_entries_cong) (rule fnmatch_suffix[OF assms(2)])
  finally show ?thesis .
qed

text \<open>
  What \<open>count_wav_files\<close> counts: in a tree where no directory lists a name twice, the
  entries at any depth, files and directories alike, whose name ends in \<open>.wav\<close> or \<open>.WAV\<close>;
  when no directory bears such a name this is the number of files with such a name.
\<close>

lemma count_wav_files_entries:
  "distinct_names t \<Longrightarrow>
     count_wav_files t = count_entries (\<lambda>n c. wav_name n) t
     \<and> (count_entries (\<lambda>n c. wav_name n \<and> is_dir c) t = 0 \<longrightarrow>
          count_wav_files t = count_entries (\<lambda>n c. wav_name n \<and> \<not> is_dir c) t)"
proof -
  assume d: "distinct_names t"
  have "count_wav_files t
        = count_entries (\<lambda>n c. endswith n ''.wav'') t + count_entries (\<lambda>n c. endswith n ''.WAV'') t"
    using rglob_count[OF d, of "''.wav''"] rglob_count[OF d, of "''.WAV''"]
    by (simp add: count_wav_files_def)
  also have "\<dots> = count_entries (\<lambda>n c. endswith n ''.wav'' \<or> endswith n ''.WAV'') t"
    by (rule count_entries_split) (rule wav_exclusive)
  finally have a: "count_wav_files t = count_entries (\<lambda>n c. wav_name n) t"
    by (simp add: wav_name_def)
  have "count_entries (\<lambda>n c. wav_name n \<and> is_dir c) t
        + count_entries (\<lambda>n c. wav_name n \<and> \<not> is_dir c) t
        = count_entries (\<lambda>n c. wav_name n \<and> is_dir c \<or> wav_name n \<and> \<not> is_dir c) t"
    by (rule count_entries_split) simp
  also have "\<dots> = count_entries (\<lambda>n c. wav_name n) t"
    by (rule count_entries_cong) auto
  finally show ?thesis using a by simp
qed

section \<open>Claims\<close>

text \<open>
  C5. For every file path whose last four characters are a dot followed by \<open>w\<close>, \<open>a\<close>, \<open>v\<close>,
  each in either letter case, \<open>guess_type\<close> returns exactly \<open>audio/wav\<close>; for every path
  that does not end so, it returns what the base class's registry lookup returns for
  that path.
\<close>

theorem guess_type_wav:
  "(w \<in> {CHR ''w'', CHR ''W''} \<and> a \<in> {CHR ''a'', CHR ''A''} \<and> v \<in> {CHR ''v'', CHR ''V''}
      \<longrightarrow> guess_type E (stem @ [CHR ''.'', w, a, v]) = ''audio/wav'')
   \<and> (\<not> endswith (lower p) ''.wav'' \<longrightarrow> guess_type E p = super_guess_type E p)"
proof (intro conjI impI)
  assume h: "w \<in> {CHR ''w'', CHR ''W''} \<and> a \<in> {CHR ''a'', CHR ''A''} \<and> v \<in> {CHR ''v'', CHR ''V''}"
  then have "lower [CHR ''.'', w, a, v] = ''.wav''"
    by (auto simp: lower_def lower_char_wav)
  then have "endswith (lower (stem @ [CHR ''.'', w, a, v])) ''.wav''"
    unfolding endswith_iff lower_append by blast
  then show "guess_type E (stem @ [CHR ''.'', w, a, v]) = ''audio/wav''"
    by (simp add: guess_type_def)
next
  assume "\<not> endswith (lower p) ''.wav''"
  then show "guess_type E p = super_guess_type E p"
    by (simp add: guess_type_def)
qed

theorem guess_type_wav_witness:
  "guess_type example_lib ''/night/REC_0001.Wav'' = ''audio/wav''
   \<and> guess_type example_lib ''/night/song.mp3'' = ''audio/mpeg''"
  using guess_type_wav [of "CHR ''W''" "CHR ''a''" "CHR ''v''" _ "''/night/REC_0001''" "''/night/song.mp3''"]
  by (simp add: endswith_def lower_def lower_char_def example_lib_def)

text \<open>
  C1. The claim asks for status 206, \<open>Content-Range: bytes 0-99/500\<close> and 100 body bytes
  when \<open>GET /rec.wav\<close> carries \<open>Range: bytes=0-99\<close> and the file has 500 bytes. The
  handler never reads the \<open>Range\<close> header: at this request it answers with status 200,
  \<open>Content-Length: 500\<close>, no \<open>Content-Range\<close> header and all 500 bytes, while its own
  \<open>Accept-Ranges: bytes\<close> header announces that byte ranges are served.
\<close>

theorem range_request_gets_whole_file:
  "fst (do_GET example_lib example_fs (example_request ''GET'' ''/rec.wav'' [(''Range'', ''bytes=0-99'')])) = None
   \<and> map status_codes (wire_heads (wfile (snd (do_GET example_lib example_fs
        (example_request ''GET'' ''/rec.wav'' [(''Range'', ''bytes=0-99'')]))))) = [[200]]
   \<and> map (header_values ''Content-Range'') (wire_heads (wfile (snd (do_GET example_lib example_fs
        (example_request ''GET'' ''/rec.wav'' [(''Range'', ''bytes=0-99'')]))))) = [[]]
   \<and> map (header_values ''Content-Length'') (wire_heads (wfile (snd (do_GET example_lib example_fs
        (example_request ''GET'' ''/rec.wav'' [(''Range'', ''bytes=0-99'')]))))) = [[''500'']]
   \<and> map (header_values ''Accept-Ranges'') (wire_heads (wfile (snd (do_GET example_lib example_fs
        (example_request ''GET'' ''/rec.wav'' [(''Range'', ''bytes=0-99'')]))))) = [[''bytes'']]
   \<and> length (wire_body (wfile (snd (do_GET example_lib example_fs
        (example_request ''GET'' ''/rec.wav'' [(''Range'', ''bytes=0-99'')]))))) = 500"
proof -
  have g: "get_header ''If-Modified-Since'' [(''Range'', ''bytes=0-99'')] = None"
    by (simp add: get_header_def lower_def lower_char_def)
  have s: "endswith_any ''/rec.wav'' audio_suffixes"
    by (simp add: endswith_any_def audio_suffixes_def endswith_def)
  note r = example_file[of "''/rec.wav''" "[(''Range'', ''bytes=0-99'')]", OF _ _ g, simplified]
  show ?thesis
    unfolding r using s
    by (simp add: file_head_def response_start_def cors_lines_def audio_lines_def str_nat_500)
qed

text \<open>
  C2, as amended. When the request path ends in exactly one of \<open>.wav\<close>, \<open>.WAV\<close>, \<open>.mp3\<close>,
  \<open>.MP3\<close>, every header block written by \<open>do_GET\<close> or \<open>do_OPTIONS\<close> carries
  \<open>Cache-Control: max-age=3600\<close> and \<open>Accept-Ranges: bytes\<close>.
\<close>

theorem audio_headers_when_suffix_listed:
  "endswith_any (path h) [''.wav'', ''.WAV'', ''.mp3'', ''.MP3''] \<Longrightarrow> heads_all audio_headers h \<Longrightarrow>
     heads_all audio_headers (snd (do_GET L F h)) \<and> heads_all audio_headers (snd (do_OPTIONS L h))"
  using do_GET_keeps[OF audio_preserved, of h L F] do_OPTIONS_keeps[OF audio_preserved, of h L]
  by (simp add: audio_suffixes_def)

theorem audio_headers_when_suffix_listed_witness:
  "endswith_any (path (example_request ''GET'' ''/rec.wav'' [])) [''.wav'', ''.WAV'', ''.mp3'', ''.MP3'']
   \<and> heads_all audio_headers (example_request ''GET'' ''/rec.wav'' [])
   \<and> map status_codes (wire_heads (wfile (snd (do_GET example_lib example_fs
        (example_request ''GET'' ''/rec.wav'' []))))) = [[200]]
   \<and> heads_all audio_headers (snd (do_GET example_lib example_fs (example_request ''GET'' ''/rec.wav'' [])))
   \<and> heads_all audio_headers (snd (do_OPTIONS example_lib (example_request ''GET'' ''/rec.wav'' [])))"
proof -
  have a: "endswith_any (path (example_request ''GET'' ''/rec.wav'' [])) [''.wav'', ''.WAV'', ''.mp3'', ''.MP3'']"
    by (simp add: example_request_def endswith_any_def endswith_def)
  have b: "heads_all audio_headers (example_request ''GET'' ''/rec.wav'' [])"
    by (rule fresh_example)
  have c: "map status_codes (wire_heads (wfile (snd (do_GET example_lib example_fs
        (example_request ''GET'' ''/rec.wav'' []))))) = [[200]]"
    unfolding example_file[of "''/rec.wav''" "[]", OF _ _ no_ims, simplified]
    by (simp add: file_head_def response_start_def cors_lines_def audio_lines_def)
  from a b c audio_headers_when_suffix_listed[OF a b] show ?thesis by blast
qed

text \<open>
  C2, as stated, fails for a mixed-case extension: \<open>GET /rec.Wav\<close> is answered with status
  200 and \<open>Content-type: audio/wav\<close>, but with neither \<open>Cache-Control\<close> nor \<open>Accept-Ranges\<close>.
\<close>

theorem audio_headers_mixed_case_counterexample:
  "endswith (lower ''/rec.Wav'') ''.wav''
   \<and> map status_codes (wire_heads (wfile (snd (do_GET example_lib example_fs
        (example_request ''GET'' ''/rec.Wav'' []))))) = [[200]]
   \<and> map (header_values ''Content-type'') (wire_heads (wfile (snd (do_GET example_lib example_fs
        (example_request ''GET'' ''/rec.Wav'' []))))) = [[''audio/wav'']]
   \<and> map (header_values ''Cache-Control'') (wire_heads (wfile (snd (do_GET example_lib example_fs
        (example_request ''GET'' ''/rec.Wav'' []))))) = [[]]
   \<and> map (header_values ''Accept-Ranges'') (wire_heads (wfile (snd (do_GET example_lib example_fs
        (example_request ''GET'' ''/rec.Wav'' []))))) = [[]]"
proof -
  have l: "endswith (lower ''/rec.Wav'') ''.wav''"
    by (simp add: lower_def lower_char_def endswith_def)
  have gt: "guess_type example_lib ''/srv/rec.Wav'' = ''audio/wav''"
    by (simp add: guess_type_def lower_def lower_char_def endswith_def)
  have s: "\<not> endswith_any ''/rec.Wav'' audio_suffixes"
    by (simp add: endswith_any_def audio_suffixes_def endswith_def)
  show ?thesis
    unfolding example_file[of "''/rec.Wav''" "[]", OF _ _ no_ims, simplified]
    using l s gt
    by (simp add: file_head_def response_start_def cors_lines_def)
qed

text \<open>
  C4. On a connection where every header block written so far carries the three headers
  \<open>Access-Control-Allow-Origin: *\<close>, \<open>Access-Control-Allow-Methods: GET, OPTIONS\<close> and
  \<open>Access-Control-Allow-Headers: *\<close> (in particular on a fresh connection), every header
  block on the wire after \<open>do_GET\<close> or \<open>do_OPTIONS\<close> carries them, whatever the path, the
  request version, the file system, the behaviour of the peer and the status sent, and
  also when the method ends with an exception.
\<close>

theorem cors_on_every_response:
  "heads_all cors h \<Longrightarrow>
     heads_all cors (snd (do_GET L F h)) \<and> heads_all cors (snd (do_OPTIONS L h))"
  using do_GET_keeps[OF cors_preserved, of h L F] do_OPTIONS_keeps[OF cors_preserved, of h L]
  by simp

theorem cors_on_every_response_witness:
  "heads_all cors (example_request ''GET'' ''/rec.wav'' [])
   \<and> map status_codes (wire_heads (wfile (snd (do_GET example_lib example_fs
        (example_request ''GET'' ''/rec.wav'' []))))) = [[200]]
   \<and> heads_all cors (snd (do_GET example_lib example_fs (example_request ''GET'' ''/rec.wav'' [])))
   \<and> map status_codes (wire_heads (wfile (snd (do_OPTIONS example_lib
        (example_request ''OPTIONS'' ''/rec.wav'' []))))) = [[200]]
   \<and> heads_all cors (snd (do_OPTIONS example_lib (example_request ''OPTIONS'' ''/rec.wav'' [])))"
proof -
  have a: "heads_all cors (example_request cmd ''/rec.wav'' [])" for cmd
    by (rule fresh_example)
  have b: "map status_codes (wire_heads (wfile (snd (do_GET example_lib example_fs
        (example_request ''GET'' ''/rec.wav'' []))))) = [[200]]"
    unfolding example_file[of "''/rec.wav''" "[]", OF _ _ no_ims, simplified]
    by (simp add: file_head_def response_start_def cors_lines_def audio_lines_def)
  have c: "map status_codes (wire_heads (wfile (snd (do_OPTIONS example_lib
        (example_request ''OPTIONS'' ''/rec.wav'' []))))) = [[200]]"
    by (simp add: do_OPTIONS_def seq_def send_response_exact end_headers_open example_request_def
                  response_start_def cors_lines_def audio_lines_def)
  from a b c cors_on_every_response[OF a[of "''GET''"], of example_lib example_fs]
       cors_on_every_response[OF a[of "''OPTIONS''"], of example_lib example_fs]
  show ?thesis by simp
qed

text \<open>
  C10, as amended. The audio-header decision looks at the raw request path. When the path
  is \<open>f?q\<close> and the query string \<open>q\<close> does not itself end in \<open>.wav\<close>, \<open>.WAV\<close>, \<open>.mp3\<close> or
  \<open>.MP3\<close>, the file is looked up under \<open>f\<close> alone and no header block written by \<open>do_GET\<close>
  carries a \<open>Cache-Control\<close> or an \<open>Accept-Ranges\<close> header, also when \<open>f\<close> names an audio file.
\<close>

theorem no_audio_headers_with_query:
  "\<not> endswith_any q [''.wav'', ''.WAV'', ''.mp3'', ''.MP3''] \<Longrightarrow> path h = f @ ''?'' @ q \<Longrightarrow>
   CHR ''?'' \<notin> set f \<Longrightarrow> no_audio (headers_buffer h) \<Longrightarrow> heads_all no_audio h \<Longrightarrow>
     translate_path L (path h) = translate_path L f
     \<and> heads_all no_audio (snd (do_GET L F h))"
  using do_GET_keeps[OF no_audio_preserved, of h L F] endswith_any_after_query[of f q]
        translate_path_query[of f L q]
  by (simp add: audio_suffixes_def)

theorem no_audio_headers_with_query_witness:
  "\<not> endswith_any ''t=30'' [''.wav'', ''.WAV'', ''.mp3'', ''.MP3'']
   \<and> path (example_request ''GET'' ''/rec.wav?t=30'' []) = ''/rec.wav'' @ ''?'' @ ''t=30''
   \<and> CHR ''?'' \<notin> set ''/rec.wav''
   \<and> no_audio (headers_buffer (example_request ''GET'' ''/rec.wav?t=30'' []))
   \<and> heads_all no_audio (example_request ''GET'' ''/rec.wav?t=30'' [])
   \<and> map (header_values ''Content-type'') (wire_heads (wfile (snd (do_GET example_lib example_fs
        (example_request ''GET'' ''/rec.wav?t=30'' []))))) = [[''audio/wav'']]
   \<and> heads_all no_audio (snd (do_GET example_lib example_fs (example_request ''GET'' ''/rec.wav?t=30'' [])))"
proof -
  have a: "\<not> endswith_any ''t=30'' [''.wav'', ''.WAV'', ''.mp3'', ''.MP3'']"
    by (simp add: endswith_any_def endswith_def)
  have b: "path (example_request ''GET'' ''/rec.wav?t=30'' []) = ''/rec.wav'' @ ''?'' @ ''t=30''"
    by (simp add: example_request_def)
  have c: "CHR ''?'' \<notin> set ''/rec.wav''" by simp
  have d: "no_audio (headers_buffer (example_request ''GET'' ''/rec.wav?t=30'' []))"
    by (rule fresh_example)
  have e: "heads_all no_audio (example_request ''GET'' ''/rec.wav?t=30'' [])"
    by (rule fresh_example)
  have gt: "guess_type example_lib ''/srv/rec.wav'' = ''audio/wav''"
    by (simp add: guess_type_def lower_def lower_char_def endswith_def)
  have g: "map (header_values ''Content-type'') (wire_heads (wfile (snd (do_GET example_lib example_fs
        (example_request ''GET'' ''/rec.wav?t=30'' []))))) = [[''audio/wav'']]"
    unfolding example_file[of "''/rec.wav?t=30''" "[]", OF _ _ no_ims, simplified]
    using gt by (simp add: file_head_def response_start_def cors_lines_def audio_lines_def)
  from a b c d e g no_audio_headers_with_query[OF a b c d e] show ?thesis by blast
qed

text \<open>
  C10, as stated for every query string, fails when the query string ends in one of the
  suffixes: \<open>GET /rec.wav?clip=a.wav\<close> serves \<open>rec.wav\<close> with both audio headers.
\<close>

theorem query_ending_in_suffix_counterexample:
  "map status_codes (wire_heads (wfile (snd (do_GET example_lib example_fs
        (example_request ''GET'' ''/rec.wav?clip=a.wav'' []))))) = [[200]]
   \<and> map (header_values ''Content-type'') (wire_heads (wfile (snd (do_GET example_lib example_fs
        (example_request ''GET'' ''/rec.wav?clip=a.wav'' []))))) = [[''audio/wav'']]
   \<and> map (header_values ''Cache-Control'') (wire_heads (wfile (snd (do_GET example_lib example_fs
        (example_request ''GET'' ''/rec.wav?clip=a.wav'' []))))) = [[''max-age=3600'']]
   \<and> map (header_values ''Accept-Ranges'') (wire_heads (wfile (snd (do_GET example_lib example_fs
        (example_request ''GET'' ''/rec.wav?clip=a.wav'' []))))) = [[''bytes'']]"
proof -
  have gt: "guess_type example_lib ''/srv/rec.wav'' = ''audio/wav''"
    by (simp add: guess_type_def lower_def lower_char_def endswith_def)
  have s: "endswith_any ''/rec.wav?clip=a.wav'' audio_suffixes"
    by (simp add: endswith_any_def audio_suffixes_def endswith_def)
  show ?thesis
    unfolding example_file[of "''/rec.wav?clip=a.wav''" "[]", OF _ _ no_ims, simplified]
    using s gt
    by (simp add: file_head_def response_start_def cors_lines_def audio_lines_def)
qed

text \<open>
  C6. The claim asks that a peer closing the transport during GET handling never makes
  an exception leave the handler. \<open>do_GET\<close> catches \<open>BrokenPipeError\<close> and
  \<open>ConnectionResetError\<close> around the call of the base class only: a transfer of \<open>/rec.wav\<close>
  cut after the header block returns normally, but the answer to \<open>/favicon.ico\<close> is written
  before the \<open>try\<close> block, and there a peer that has gone makes \<open>do_GET\<close> raise
  \<open>BrokenPipeError\<close>.
\<close>

theorem favicon_disconnect_raises:
  "fst (do_GET example_lib example_fs
        ((example_request ''GET'' ''/favicon.ico'' [])\<lparr>peer := [Some BrokenPipeError]\<rparr>))
     = Some BrokenPipeError
   \<and> fst (super_do_GET example_lib example_fs
        ((example_request ''GET'' ''/rec.wav'' [])\<lparr>peer := [None, Some BrokenPipeError]\<rparr>))
     = Some BrokenPipeError
   \<and> fst (do_GET example_lib example_fs
        ((example_request ''GET'' ''/rec.wav'' [])\<lparr>peer := [None, Some BrokenPipeError]\<rparr>))
     = None"
proof -
  let ?h = "(example_request ''GET'' ''/rec.wav'' [])\<lparr>peer := [None, Some BrokenPipeError]\<rparr>"
  let ?f = "\<lparr>content = replicate 500 CHR ''x'', fstat_error = None, st_size = 500,
                last_modified = ''Tue, 03 Nov 2026 23:00:00 GMT''\<rparr>"
  have t: "translate_path example_lib (path ?h) = ''/srv/rec.wav''"
    by (simp add: example_translate example_request_def)
  have 0: "path ?h \<noteq> ''/favicon.ico''" by (simp add: example_request_def)
  have 1: "\<not> isdir example_fs (translate_path example_lib (path ?h))"
    unfolding t by (simp add: example_fs_def)
  have 2: "\<not> endswith (translate_path example_lib (path ?h)) ''/''"
    unfolding t by (simp add: endswith_def)
  have 3: "open_rb example_fs (translate_path example_lib (path ?h)) = Inr ?f"
    unfolding t by (simp add: example_fs_def)
  have 4: "fstat_error ?f = None" by simp
  have 5: "get_header ''If-Modified-Since'' (headers ?h) = None"
    by (simp add: example_request_def no_ims)
  have 6: "request_version ?h \<noteq> ''HTTP/0.9''" by (simp add: example_request_def)
  have 7: "peer ?h = [None, Some BrokenPipeError]" by simp
  have 8: "content ?f \<noteq> []" by simp
  note s = super_do_GET_file_cut[OF 1 2 3 4 5 6 7 8]
  have a: "fst (do_GET example_lib example_fs
        ((example_request ''GET'' ''/favicon.ico'' [])\<lparr>peer := [Some BrokenPipeError]\<rparr>))
     = Some BrokenPipeError"
    by (simp add: do_GET_favicon example_request_def flush_headers_def wfile_write_def)
  have b: "fst (super_do_GET example_lib example_fs ?h) = Some BrokenPipeError"
    unfolding s by simp
  have c: "fst (do_GET example_lib example_fs ?h) = None"
    using 0 b by (simp add: do_GET_catches)
  from a b c show ?thesis by simp
qed

text \<open>
  C7. A GET request whose path is exactly \<open>/favicon.ico\<close> is answered without looking at
  the file system: the outcome is the same whatever the file system holds, and no body
  byte is written. For a request that carries an HTTP version (the protocol the server
  speaks is HTTP/1.x; a request line without a version is HTTP/0.9, which has no status
  line), with the peer connected, the answer is one header block with status 204.
\<close>

theorem favicon_no_content:
  "path h = ''/favicon.ico'' \<Longrightarrow>
     do_GET L F h = do_GET L F' h
     \<and> wire_body (wfile (snd (do_GET L F h))) = wire_body (wfile h)
     \<and> (request_version h \<noteq> ''HTTP/0.9'' \<and> peer h = [] \<and> headers_buffer h = [] \<longrightarrow>
          fst (do_GET L F h) = None
          \<and> wfile (snd (do_GET L F h)) =
              wfile h @ [Head ([StatusLine (protocol_version L) 204 ''No Content'',
                                HeaderLine ''Server'' (version_string L),
                                HeaderLine ''Date'' (date_time_string L),
                                HeaderLine ''Access-Control-Allow-Origin'' ''*'',
                                HeaderLine ''Access-Control-Allow-Methods'' ''GET, OPTIONS'',
                                HeaderLine ''Access-Control-Allow-Headers'' ''*''])])"
proof (intro conjI impI)
  assume p: "path h = ''/favicon.ico''"
  let ?h = "(logged L 204 h)\<lparr>headers_buffer :=
        headers_buffer h @ response_start L 204 ''No Content'' @ cors_lines\<rparr>"
  show "do_GET L F h = do_GET L F' h"
    using p by (simp add: do_GET_def)
  show "wire_body (wfile (snd (do_GET L F h))) = wire_body (wfile h)"
  proof (cases "request_version h = ''HTTP/0.9''")
    case True
    then show ?thesis by (simp add: do_GET_favicon_versionless[OF p])
  next
    case False
    then show ?thesis
      using flush_headers_cases[of ?h] by (auto simp: do_GET_favicon[OF p] wire_body_def)
  qed
  assume "request_version h \<noteq> ''HTTP/0.9'' \<and> peer h = [] \<and> headers_buffer h = []"
  then have g: "do_GET L F h =
      (None, ?h\<lparr>headers_buffer := [], wfile := wfile h @ [Head (response_start L 204 ''No Content'' @ cors_lines)]\<rparr>)"
    by (simp add: do_GET_favicon[OF p] flush_headers_def wfile_write_def)
  show "fst (do_GET L F h) = None" by (simp add: g)
  show "wfile (snd (do_GET L F h)) =
              wfile h @ [Head ([StatusLine (protocol_version L) 204 ''No Content'',
                                HeaderLine ''Server'' (version_string L),
                                HeaderLine ''Date'' (date_time_string L),
                                HeaderLine ''Access-Control-Allow-Origin'' ''*'',
                                HeaderLine ''Access-Control-Allow-Methods'' ''GET, OPTIONS'',
                                HeaderLine ''Access-Control-Allow-Headers'' ''*''])]"
    by (simp add: g response_start_def cors_lines_def)
qed

theorem favicon_no_content_witness:
  "path (example_request ''GET'' ''/favicon.ico'' []) = ''/favicon.ico''
   \<and> request_version (example_request ''GET'' ''/favicon.ico'' []) \<noteq> ''HTTP/0.9''
   \<and> peer (example_request ''GET'' ''/favicon.ico'' []) = []
   \<and> headers_buffer (example_request ''GET'' ''/favicon.ico'' []) = []
   \<and> map status_codes (wire_heads (wfile (snd (do_GET example_lib example_fs
        (example_request ''GET'' ''/favicon.ico'' []))))) = [[204]]
   \<and> wire_body (wfile (snd (do_GET example_lib example_fs
        (example_request ''GET'' ''/favicon.ico'' [])))) = []"
proof -
  have a: "path (example_request ''GET'' ''/favicon.ico'' []) = ''/favicon.ico''"
    and b: "request_version (example_request ''GET'' ''/favicon.ico'' []) \<noteq> ''HTTP/0.9''
            \<and> peer (example_request ''GET'' ''/favicon.ico'' []) = []
            \<and> headers_buffer (example_request ''GET'' ''/favicon.ico'' []) = []"
    and w: "wfile (example_request ''GET'' ''/favicon.ico'' []) = []"
    by (simp_all add: example_request_def)
  from favicon_no_content[OF a, of example_lib example_fs example_fs] a b w
  show ?thesis by simp
qed

text \<open>
  C9, as amended. \<open>log_request\<close> prints its line if and only if the request line as a
  whole (method, raw path with its query string, version) contains one of \<open>.wav\<close>, \<open>.WAV\<close>,
  \<open>.html\<close>, \<open>.mp3\<close>, \<open>.MP3\<close>; the line printed is \<open>[Servidor]\<close> followed by the URL-decoded
  message, and otherwise nothing is printed and the state is unchanged. For a request line
  \<open>method path version\<close> whose method and version contain none of the five extensions, the
  request line contains one if and only if the path does.
\<close>

theorem request_log_filtered:
  "log_request L code h =
     (None,
      if has_ext (requestline h)
      then h\<lparr>stdout := stdout h @
               [''[Servidor] '' @
                unquote L ([CHR 0x22] @ requestline h @ [CHR 0x22] @ '' '' @ str_nat code @ '' -'')]\<rparr>
      else h)
   \<and> (requestline h = cmd @ '' '' @ path h @ '' '' @ ver \<and> \<not> has_ext cmd \<and> \<not> has_ext ver
        \<longrightarrow> (has_ext (requestline h) \<longleftrightarrow> has_ext (path h)))"
  using has_ext_requestline[of cmd ver "path h"]
  by (simp add: log_request_exact logged_def request_log_line_def)

theorem request_log_filtered_witness:
  "requestline (example_request ''GET'' ''/night/rec%201.wav'' []) =
     ''GET'' @ '' '' @ path (example_request ''GET'' ''/night/rec%201.wav'' []) @ '' '' @ ''HTTP/1.1''
   \<and> \<not> has_ext ''GET'' \<and> \<not> has_ext ''HTTP/1.1''
   \<and> has_ext (path (example_request ''GET'' ''/night/rec%201.wav'' []))
   \<and> stdout (snd (log_request example_lib 200 (example_request ''GET'' ''/night/rec%201.wav'' []))) =
       [''[Servidor] \"GET /night/rec 1.wav HTTP/1.1\" 200 -'']
   \<and> \<not> has_ext (requestline (example_request ''GET'' ''/night/photo.png'' []))
   \<and> stdout (snd (log_request example_lib 200 (example_request ''GET'' ''/night/photo.png'' []))) = []"
proof -
  let ?h = "example_request ''GET'' ''/night/rec%201.wav'' []"
  let ?g = "example_request ''GET'' ''/night/photo.png'' []"
  have u: "unquote example_lib ''\"GET /night/rec%201.wav HTTP/1.1\" 200 -''
             = ''\"GET /night/rec 1.wav HTTP/1.1\" 200 -''"
    unfolding example_lib_def by code_simp
  have r: "requestline ?h = ''GET'' @ '' '' @ path ?h @ '' '' @ ''HTTP/1.1''"
    by (simp add: example_request_def)
  have m: "\<not> has_ext ''GET''" "\<not> has_ext ''HTTP/1.1''"
    by (simp_all add: has_ext_def startswith_def)
  have e1: "has_ext (path ?h)"
    by (simp add: has_ext_def startswith_def example_request_def)
  have e2: "\<not> has_ext (requestline ?g)"
    by (simp add: has_ext_def startswith_def example_request_def)
  have n: "str_nat 200 = ''200''" by (simp add: str_nat.simps)
  have l1: "requestline ?h = ''GET /night/rec%201.wav HTTP/1.1''"
    by (simp add: example_request_def)
  have s0: "stdout ?h = []" "stdout ?g = []" by (simp_all add: example_request_def)
  from request_log_filtered[of example_lib 200 ?h "''GET''" "''HTTP/1.1''"] r m e1
  have "stdout (snd (log_request example_lib 200 ?h)) =
       [''[Servidor] \"GET /night/rec 1.wav HTTP/1.1\" 200 -'']"
    by (simp add: n l1 u s0 del: py_in.simps)
  moreover from request_log_filtered[of example_lib 200 ?g "''GET''" "''HTTP/1.1''"] e2
  have "stdout (snd (log_request example_lib 200 ?g)) = []"
    by (simp add: s0)
  ultimately show ?thesis using r m e1 e2 by blast
qed

text \<open>
  C9, as stated for the request path, fails when the extension stands elsewhere in the
  request line: for \<open>PUT.wav / HTTP/1.1\<close>, which the server answers with status 501, the path
  \<open>/\<close> contains no extension and yet the request log line is printed.
\<close>

theorem request_line_logged_counterexample:
  "path (example_request ''PUT.wav'' ''/'' []) = ''/''
   \<and> \<not> has_ext (path (example_request ''PUT.wav'' ''/'' []))
   \<and> stdout (snd (log_request example_lib 501 (example_request ''PUT.wav'' ''/'' []))) =
       [''[Servidor] \"PUT.wav / HTTP/1.1\" 501 -'']"
proof -
  let ?h = "example_request ''PUT.wav'' ''/'' []"
  have u: "unquote example_lib ''\"PUT.wav / HTTP/1.1\" 501 -'' = ''\"PUT.wav / HTTP/1.1\" 501 -''"
    unfolding example_lib_def by code_simp
  have n: "str_nat 501 = ''501''" by (simp add: str_nat.simps)
  have l: "requestline ?h = ''PUT.wav / HTTP/1.1''" "stdout ?h = []" "path ?h = ''/''"
    by (simp_all add: example_request_def)
  have e: "has_ext (requestline ?h)" "\<not> has_ext ''/''"
    unfolding l by (simp_all add: has_ext_def startswith_def)
  show ?thesis
    using e by (simp add: log_request_exact logged_def request_log_line_def l n u del: py_in.simps)
qed

text \<open>
  C3, as amended. Report discovery tries the patterns in priority order at the root;
  when none matches there, it takes the patterns in priority order again and tries each
  one level down and then two levels down before it moves to the next pattern. It
  returns the first match found in this order, and \<open>None\<close> exactly when no pattern matches
  at the root, one level down or two levels down. The result is that of the search in
  depth order whenever some pattern matches at the root or no pattern matches two levels
  down; for a directory that holds \<open>sub/audiomoth_reporte.html\<close> and no match at the root
  it is \<open>sub/audiomoth_reporte.html\<close>.
\<close>

theorem report_search_order:
  "find_html_report t = report_by_pattern t
   \<and> (find_html_report t = None \<longleftrightarrow>
        (\<forall>p\<in>set patterns. glob t p = [] \<and> glob t (''*/'' @ p) = [] \<and> glob t (''*/*/'' @ p) = []))
   \<and> ((\<exists>p\<in>set patterns. glob t p \<noteq> []) \<or> (\<forall>p\<in>set patterns. glob t (''*/*/'' @ p) = [])
        \<longrightarrow> find_html_report t = report_by_depth t)"
proof (intro conjI impI)
  show "find_html_report t = report_by_pattern t"
    by (rule find_html_report_by_pattern)
  show "find_html_report t = None \<longleftrightarrow>
        (\<forall>p\<in>set patterns. glob t p = [] \<and> glob t (''*/'' @ p) = [] \<and> glob t (''*/*/'' @ p) = [])"
    by (rule find_html_report_None)
  assume "(\<exists>p\<in>set patterns. glob t p \<noteq> []) \<or> (\<forall>p\<in>set patterns. glob t (''*/*/'' @ p) = [])"
  then show "find_html_report t = report_by_depth t"
  proof
    assume "\<exists>p\<in>set patterns. glob t p \<noteq> []"
    then have "\<exists>m\<in>set (map (glob t) patterns). m \<noteq> []" by auto
    from first_match_Some[OF this, of name_of]
    obtain r where "first_match name_of (map (glob t) patterns) = Some r" ..
    then show ?thesis
      by (simp add: find_html_report_by_pattern report_by_pattern_def report_by_depth_def)
  next
    assume "\<forall>p\<in>set patterns. glob t (''*/*/'' @ p) = []"
    from interleave_empty[of patterns "\<lambda>p. glob t (''*/*/'' @ p)" "\<lambda>p. glob t (''*/'' @ p)", OF this]
    have "first_match path_str
            (concat (map (\<lambda>pattern. [glob t (''*/'' @ pattern), glob t (''*/*/'' @ pattern)]) patterns))
          = first_match path_str
            (map (\<lambda>pattern. glob t (''*/'' @ pattern)) patterns
             @ map (\<lambda>pattern. glob t (''*/*/'' @ pattern)) patterns)"
      by (rule first_match_concat)
    then show ?thesis
      unfolding find_html_report_by_pattern report_by_pattern_def report_by_depth_def
      by (simp only:)
  qed
qed

theorem report_search_order_witness:
  "map (\<lambda>p. glob example_tree (''*/*/'' @ p)) patterns = [[], [], []]
   \<and> find_html_report example_tree = Some ''sub/audiomoth_reporte.html''
   \<and> report_by_depth example_tree = Some ''sub/audiomoth_reporte.html''
   \<and> map (\<lambda>p. (glob (Dir [(''notes.txt'', File)]) p,
                 glob (Dir [(''notes.txt'', File)]) (''*/'' @ p),
                 glob (Dir [(''notes.txt'', File)]) (''*/*/'' @ p))) patterns
       = [([], [], []), ([], [], []), ([], [], [])]
   \<and> find_html_report (Dir [(''notes.txt'', File)]) = None"
proof -
  have a: "map (\<lambda>p. glob example_tree (''*/*/'' @ p)) patterns = [[], [], []]"
    by code_simp
  have b: "report_by_depth example_tree = Some ''sub/audiomoth_reporte.html''"
    by code_simp
  have c: "map (\<lambda>p. (glob (Dir [(''notes.txt'', File)]) p,
                 glob (Dir [(''notes.txt'', File)]) (''*/'' @ p),
                 glob (Dir [(''notes.txt'', File)]) (''*/*/'' @ p))) patterns
       = [([], [], []), ([], [], []), ([], [], [])]"
    by code_simp
  have a': "\<forall>p\<in>set patterns. glob example_tree (''*/*/'' @ p) = []"
    using a by (simp add: patterns_def)
  have c': "\<forall>p\<in>set patterns. glob (Dir [(''notes.txt'', File)]) p = []
         \<and> glob (Dir [(''notes.txt'', File)]) (''*/'' @ p) = []
         \<and> glob (Dir [(''notes.txt'', File)]) (''*/*/'' @ p) = []"
    using c by (simp add: patterns_def)
  from report_search_order[of example_tree] a'
  have f: "find_html_report example_tree = report_by_depth example_tree" by blast
  from report_search_order[of "Dir [(''notes.txt'', File)]"] c'
  have g: "find_html_report (Dir [(''notes.txt'', File)]) = None" by blast
  from a b c f g show ?thesis by metis
qed

text \<open>
  C3, as stated (root, then all matches one level down, then all matches two levels
  down), fails when a pattern of higher priority matches two levels down and one of lower
  priority one level down: with \<open>a/reporte.html\<close> and \<open>a/b/audiomoth_reporte.html\<close> the
  program returns the deeper file, the search in depth order the shallower one.
\<close>

theorem report_depth_order_counterexample:
  "find_html_report interleaved_tree = Some ''a/b/audiomoth_reporte.html''
   \<and> report_by_depth interleaved_tree = Some ''a/reporte.html''"
  by code_simp

text \<open>
  C8. The claim, like the docstring of \<open>count_wav_files\<close> and the message that prints its
  result, speaks of the number of WAV files. For three \<open>.wav\<close> files at the root and two in
  a subdirectory the function returns 5, but it counts every entry whose name ends in
  \<open>.wav\<close> or \<open>.WAV\<close>, and a directory bearing such a name is counted as well: for a tree
  that holds the empty directory \<open>take1.wav\<close> and no file at all it returns 1.
\<close>

theorem directory_named_wav_counted:
  "count_wav_files recordings = 5
   \<and> count_entries (\<lambda>n c. wav_name n \<and> \<not> is_dir c) recordings = 5
   \<and> count_wav_files (Dir [(''take1.wav'', Dir [])]) = 1
   \<and> count_entries (\<lambda>n c. wav_name n \<and> \<not> is_dir c) (Dir [(''take1.wav'', Dir [])]) = 0"
  by code_simp

end
